theory Spec2Isabelle
  imports Main "HOL-Library.Sublist"
begin

text \<open>
  A model of the EC600N driver of alert-mobile-notify (package \<open>ec600n\<close>): the command
  executor over the serial port, the status queries and their patterns, dialling, the
  call monitor, construction and shutdown, followed by the properties proved of them.
  A Go function that returns \<open>(value, error)\<close> is a function into a pair whose second
  component is \<open>None\<close> for a nil error, and a method that changes the controller also
  returns the controller it leaves behind.
\<close>

section \<open>Go strings\<close>

text \<open>
  A Go string is a sequence of bytes; \<^typ>\<open>string\<close> is a list of 8-bit characters, so the
  two coincide. The helpers below are the functions of package \<open>strings\<close> that the driver
  calls.
\<close>

text \<open>\<open>strings.Contains(s, sub)\<close>: \<open>sub\<close> occurs in \<open>s\<close> as a contiguous run of bytes.\<close>

fun contains :: "string \<Rightarrow> string \<Rightarrow> bool" where
  "contains [] sub = (sub = [])"
| "contains (c # cs) sub = (prefix sub (c # cs) \<or> contains cs sub)"

text \<open>
  \<open>strings.TrimSpace\<close> removes the leading and the trailing runes for which
  \<open>unicode.IsSpace\<close> holds. These runes are listed here by their UTF-8 encodings: the six
  ASCII ones, U+0085, U+00A0, U+1680, U+2000 to U+200A, U+2028, U+2029, U+202F, U+205F
  and U+3000. Any other byte sequence decodes to a rune that is not a space (an ill-formed
  one to the replacement rune), where trimming stops.
\<close>

definition spaceRunes :: "string list" where
  "spaceRunes =
     [[CHR 0x09], [CHR 0x0A], [CHR 0x0B], [CHR 0x0C], [CHR 0x0D], [CHR 0x20],
      [CHR 0xC2, CHR 0x85], [CHR 0xC2, CHR 0xA0],
      [CHR 0xE1, CHR 0x9A, CHR 0x80],
      [CHR 0xE2, CHR 0x80, CHR 0x80], [CHR 0xE2, CHR 0x80, CHR 0x81],
      [CHR 0xE2, CHR 0x80, CHR 0x82], [CHR 0xE2, CHR 0x80, CHR 0x83],
      [CHR 0xE2, CHR 0x80, CHR 0x84], [CHR 0xE2, CHR 0x80, CHR 0x85],
      [CHR 0xE2, CHR 0x80, CHR 0x86], [CHR 0xE2, CHR 0x80, CHR 0x87],
      [CHR 0xE2, CHR 0x80, CHR 0x88], [CHR 0xE2, CHR 0x80, CHR 0x89],
      [CHR 0xE2, CHR 0x80, CHR 0x8A],
      [CHR 0xE2, CHR 0x80, CHR 0xA8], [CHR 0xE2, CHR 0x80, CHR 0xA9],
      [CHR 0xE2, CHR 0x80, CHR 0xAF], [CHR 0xE2, CHR 0x81, CHR 0x9F],
      [CHR 0xE3, CHR 0x80, CHR 0x80]]"

text \<open>Remove leading occurrences of the given (non-empty) byte sequences.\<close>

function stripRunes :: "string list \<Rightarrow> string \<Rightarrow> string" where
  "stripRunes toks s =
     (case List.find (\<lambda>t. t \<noteq> [] \<and> prefix t s) toks of
        None \<Rightarrow> s
      | Some t \<Rightarrow> stripRunes toks (drop (length t) s))"
  by pat_completeness auto
termination
proof (relation "measure (\<lambda>(toks, s). length s)")
  show "wf (measure (\<lambda>(toks, s). length s))" by simp
next
  fix toks :: "string list" and s t :: string
  assume "List.find (\<lambda>t. t \<noteq> [] \<and> prefix t s) toks = Some t"
  then have "t \<noteq> []" and "prefix t s"
    by (auto simp: find_Some_iff)
  then have "0 < length t" and "length t \<le> length s"
    by (auto simp: prefix_def)
  then have "length s - length t < length s"
    by arith
  then show "((toks, drop (length t) s), (toks, s)) \<in> measure (\<lambda>(toks, s). length s)"
    by simp
qed

declare stripRunes.simps [simp del]

definition TrimSpace :: "string \<Rightarrow> string" where
  "TrimSpace s = rev (stripRunes (map rev spaceRunes) (rev (stripRunes spaceRunes s)))"

text \<open>\<open>strings.ReplaceAll(s, old, "")\<close> for a one-byte \<open>old\<close>: every such byte is removed.\<close>

definition removeAll_byte :: "char \<Rightarrow> string \<Rightarrow> string" where
  "removeAll_byte c s = filter (\<lambda>x. x \<noteq> c) s"

text \<open>
  \<open>strings.ToUpper\<close>: a string of ASCII bytes only is mapped byte by byte, \<open>a\<close> to \<open>z\<close>
  to \<open>A\<close> to \<open>Z\<close>. Any other string goes through the Unicode case tables, which are not
  part of this development: that mapping is the parameter \<open>unicodeUpper\<close>.
\<close>

definition isASCII :: "char \<Rightarrow> bool" where
  "isASCII c = ((of_char c :: nat) < 128)"

definition asciiUpper :: "char \<Rightarrow> char" where
  "asciiUpper c =
     (case map_of (zip ''abcdefghijklmnopqrstuvwxyz'' ''ABCDEFGHIJKLMNOPQRSTUVWXYZ'') c of
        None \<Rightarrow> c
      | Some u \<Rightarrow> u)"

definition ToUpper :: "(string \<Rightarrow> string) \<Rightarrow> string \<Rightarrow> string" where
  "ToUpper unicodeUpper s = (if list_all isASCII s then map asciiUpper s else unicodeUpper s)"

text \<open>\<open>strings.Split(s, sep)\<close> for a one-byte separator.\<close>

fun Split :: "string \<Rightarrow> char \<Rightarrow> string list" where
  "Split [] sep = [[]]"
| "Split (c # cs) sep =
     (if c = sep then [] # Split cs sep
      else (case Split cs sep of [] \<Rightarrow> [[c]] | piece # rest \<Rightarrow> (c # piece) # rest))"

text \<open>
  \<open>strings.IndexAny(s, chars)\<close> for ASCII \<open>chars\<close>: the index of the first byte of \<open>s\<close>
  that is one of \<open>chars\<close>, or \<open>-1\<close>.
\<close>

fun IndexAny :: "string \<Rightarrow> string \<Rightarrow> int" where
  "IndexAny [] chars = - 1"
| "IndexAny (c # cs) chars =
     (if c \<in> set chars then 0
      else (let i = IndexAny cs chars in if i < 0 then - 1 else i + 1))"

section \<open>The fixed patterns\<close>

text \<open>
  The four precompiled regular expressions. In Go's syntax \<open>\d\<close> is \<open>[0-9]\<close> and \<open>\s\<close> is
  \<open>[\t\n\f\r ]\<close>. In each pattern every repetition is followed by a byte outside its
  class, so a match at a given position is unique and the greedy reading below is the
  only one. Each matcher answers for a match that starts at the head of its argument
  and returns the captured groups; \<open>FindStringSubmatch\<close> takes the leftmost position
  that matches (\<open>findFirst\<close>). A returned slice has one entry more than there are
  groups, so the length tests of the source fail exactly when there is no match.
\<close>

definition isDigit :: "char \<Rightarrow> bool" where
  "isDigit c = (c \<in> set ''0123456789'')"

definition isReSpace :: "char \<Rightarrow> bool" where
  "isReSpace c = (c \<in> set [CHR 0x09, CHR 0x0A, CHR 0x0C, CHR 0x0D, CHR 0x20])"

fun findFirst :: "(string \<Rightarrow> 'a option) \<Rightarrow> string \<Rightarrow> 'a option" where
  "findFirst m [] = m []"
| "findFirst m (c # cs) = (case m (c # cs) of Some r \<Rightarrow> Some r | None \<Rightarrow> findFirst m cs)"

text \<open>\<open>\d+\<close> followed by the byte \<open>c\<close>: the digits and what follows \<open>c\<close>.\<close>

definition digitsThen :: "char \<Rightarrow> string \<Rightarrow> (string \<times> string) option" where
  "digitsThen c s =
     (let n = takeWhile isDigit s in
      if n = [] then None
      else (case dropWhile isDigit s of
              [] \<Rightarrow> None
            | d # r \<Rightarrow> if d = c then Some (n, r) else None))"

text \<open>\<open>reCSQ = \+CSQ:\s*(\d+),(\d+)\<close>\<close>

definition matchCSQ :: "string \<Rightarrow> (string \<times> string) option" where
  "matchCSQ s =
     (if prefix ''+CSQ:'' s then
        (case digitsThen (CHR '','') (dropWhile isReSpace (drop 5 s)) of
           None \<Rightarrow> None
         | Some (n, r) \<Rightarrow>
             (let m = takeWhile isDigit r in if m = [] then None else Some (n, m)))
      else None)"

text \<open>\<open>reCREG = \+CREG:\s*\d+,(\d+)\<close>\<close>

definition matchCREG :: "string \<Rightarrow> string option" where
  "matchCREG s =
     (if prefix ''+CREG:'' s then
        (case digitsThen (CHR '','') (dropWhile isReSpace (drop 6 s)) of
           None \<Rightarrow> None
         | Some (n, r) \<Rightarrow>
             (let st = takeWhile isDigit r in if st = [] then None else Some st))
      else None)"

text \<open>\<open>reCOPS = \+COPS:\s*\d+,\d+,"([^"]+)"\<close>\<close>

definition matchCOPS :: "string \<Rightarrow> string option" where
  "matchCOPS s =
     (if prefix ''+COPS:'' s then
        (case digitsThen (CHR '','') (dropWhile isReSpace (drop 6 s)) of
           None \<Rightarrow> None
         | Some (n, r) \<Rightarrow>
             (case digitsThen (CHR '','') r of
                None \<Rightarrow> None
              | Some (m, r1) \<Rightarrow>
                  (case r1 of
                     [] \<Rightarrow> None
                   | q # r2 \<Rightarrow>
                       if q \<noteq> CHR 0x22 then None
                       else (let name = takeWhile (\<lambda>c. c \<noteq> CHR 0x22) r2 in
                             if name = [] then None
                             else (case dropWhile (\<lambda>c. c \<noteq> CHR 0x22) r2 of
                                     [] \<Rightarrow> None
                                   | _ # _ \<Rightarrow> Some name)))))
      else None)"

text \<open>\<open>reIMEI = ^\d{15}$\<close>, matched against a whole line.\<close>

definition matchIMEI :: "string \<Rightarrow> bool" where
  "matchIMEI s = (length s = 15 \<and> list_all isDigit s)"

text \<open>
  \<open>fmt.Sscanf(tok, "%d", &signal)\<close> on a non-empty run of digits: the decimal value,
  or an error when it does not fit an \<open>int\<close> (64 bits on the platforms the program is
  built for).
\<close>

definition decimalValue :: "string \<Rightarrow> int" where
  "decimalValue s = foldl (\<lambda>a c. 10 * a + (int (of_char c) - 48)) 0 s"

definition maxInt :: int where
  "maxInt = 2 ^ 63 - 1"

section \<open>The serial transport\<close>

text \<open>
  The driver owns a \<open>*serial.Port\<close>. What the device does is outside the program, so the
  port is a script: for each kind of call, the outcomes of the successive calls. A
  \<open>bufio.Reader.ReadString('\n')\<close> either yields a line (what was read up to and including
  the newline) or fails; the partial data that comes with a failure is dropped by every
  caller, so it is left out. An exhausted read script fails (end of input), exhausted
  error scripts succeed. Every call is appended to \<open>oplog\<close>, which is what "the transport
  was touched" means below. The settle delay \<open>time.Sleep\<close> has no effect on values and is
  not modelled.
\<close>

datatype read_result = Line string | ReadFail

datatype port_op = OpFlush | OpWrite string | OpReadString | OpClose

record serial_port =
  flush_errs :: "bool list"
  write_errs :: "bool list"
  close_errs :: "bool list"
  incoming :: "read_result list"
  oplog :: "port_op list"

definition port_Flush :: "serial_port \<Rightarrow> bool \<times> serial_port" where
  "port_Flush p =
     (case flush_errs p of
        [] \<Rightarrow> (False, p\<lparr>oplog := oplog p @ [OpFlush]\<rparr>)
      | b # bs \<Rightarrow> (b, p\<lparr>flush_errs := bs, oplog := oplog p @ [OpFlush]\<rparr>))"

definition port_Write :: "serial_port \<Rightarrow> string \<Rightarrow> bool \<times> serial_port" where
  "port_Write p bytes =
     (case write_errs p of
        [] \<Rightarrow> (False, p\<lparr>oplog := oplog p @ [OpWrite bytes]\<rparr>)
      | b # bs \<Rightarrow> (b, p\<lparr>write_errs := bs, oplog := oplog p @ [OpWrite bytes]\<rparr>))"

definition port_Close :: "serial_port \<Rightarrow> bool \<times> serial_port" where
  "port_Close p =
     (case close_errs p of
        [] \<Rightarrow> (False, p\<lparr>oplog := oplog p @ [OpClose]\<rparr>)
      | b # bs \<Rightarrow> (b, p\<lparr>close_errs := bs, oplog := oplog p @ [OpClose]\<rparr>))"

definition port_ReadString :: "serial_port \<Rightarrow> read_result \<times> serial_port" where
  "port_ReadString p =
     (case incoming p of
        [] \<Rightarrow> (ReadFail, p\<lparr>oplog := oplog p @ [OpReadString]\<rparr>)
      | r # rs \<Rightarrow> (r, p\<lparr>incoming := rs, oplog := oplog p @ [OpReadString]\<rparr>))"

section \<open>Errors\<close>

text \<open>
  The driver builds every error with \<open>fmt.Errorf\<close>. The constructors name the messages:
  \<open>NotConnected\<close> is the nil-port message, \<open>Transport\<close> an error handed up by the serial
  library, \<open>Wrapped\<close> a \<open>%w\<close> wrapping, \<open>ParseError\<close> a response that did not match
  (it carries the response), \<open>ValidationError\<close> the empty phone number, \<open>DialError\<close> and
  \<open>HangupError\<close> a response without the accepted keyword, \<open>ATTestError\<close> the failed
  probe of the constructor, \<open>ScanError\<close> a failed \<open>fmt.Sscanf\<close>.
\<close>

datatype transport_call = CallOpen | CallFlush | CallWrite | CallClose

datatype error =
    NotConnected
  | Transport transport_call
  | Wrapped error
  | ParseError string
  | ScanError string
  | ValidationError
  | DialError string
  | HangupError string
  | ATTestError string

section \<open>The controller and the command executor\<close>

record Config =
  Enabled :: bool
  SerialPort :: string
  BaudRate :: int

text \<open>
  The controller struct. A nil \<open>port\<close> is \<open>None\<close>. The \<open>notify\<close> field is only used by
  the report sender and is left out.
\<close>

record EC600N =
  config :: Config
  port :: "serial_port option"
  connected :: bool

definition MaxResponseLines :: nat where
  "MaxResponseLines = 10"

definition isSentinel :: "string \<Rightarrow> bool" where
  "isSentinel line = (contains line ''OK'' \<or> contains line ''ERROR'')"

text \<open>
  The loop of \<open>readResponse\<close>: \<open>i\<close> is the loop counter, \<open>response\<close> the builder.
\<close>

function readLoop :: "nat \<Rightarrow> serial_port \<Rightarrow> string \<Rightarrow> string \<times> serial_port" where
  "readLoop i p response =
     (if i < MaxResponseLines then
        (case port_ReadString p of
           (ReadFail, p') \<Rightarrow> (response, p')
         | (Line line, p') \<Rightarrow>
             if contains line ''OK'' \<or> contains line ''ERROR''
             then (response @ line, p')
             else readLoop (i + 1) p' (response @ line))
      else (response, p))"
  by pat_completeness auto
termination
  by (relation "measure (\<lambda>(i, p, response). MaxResponseLines - i)") auto

declare readLoop.simps [simp del]

definition readResponse :: "serial_port \<Rightarrow> (string \<times> error option) \<times> serial_port" where
  "readResponse p = (case readLoop 0 p [] of (response, p') \<Rightarrow> ((response, None), p'))"

definition sendATCommand :: "EC600N \<Rightarrow> string \<Rightarrow> (string \<times> error option) \<times> EC600N" where
  "sendATCommand e command =
     (case port e of
        None \<Rightarrow> (([], Some NotConnected), e)
      | Some p \<Rightarrow>
          (case port_Flush p of
             (True, p1) \<Rightarrow> (([], Some (Wrapped (Transport CallFlush))), e\<lparr>port := Some p1\<rparr>)
           | (False, p1) \<Rightarrow>
               (case port_Write p1 (command @ [CHR 0x0D, CHR 0x0A]) of
                  (True, p2) \<Rightarrow>
                    (([], Some (Wrapped (Transport CallWrite))), e\<lparr>port := Some p2\<rparr>)
                | (False, p2) \<Rightarrow>
                    (case readResponse p2 of (r, p3) \<Rightarrow> (r, e\<lparr>port := Some p3\<rparr>)))))"

section \<open>Construction and shutdown\<close>

text \<open>
  \<open>serial.OpenPort\<close> is the operating system's: \<open>device\<close> is the port it would hand out
  (\<open>None\<close> when opening fails) and \<open>open_calls\<close> records every call with the device
  path and the baud rate.
\<close>

record os_state =
  device :: "serial_port option"
  open_calls :: "(string \<times> int) list"

definition initSerial :: "EC600N \<Rightarrow> os_state \<Rightarrow> error option \<times> EC600N \<times> os_state" where
  "initSerial e w =
     (let w' = w\<lparr>open_calls := open_calls w @ [(SerialPort (config e), BaudRate (config e))]\<rparr> in
      case device w of
        None \<Rightarrow> (Some (Wrapped (Transport CallOpen)), e, w')
      | Some p \<Rightarrow> (None, e\<lparr>port := Some p\<rparr>, w'))"

definition testConnection :: "EC600N \<Rightarrow> error option \<times> EC600N" where
  "testConnection e =
     (case sendATCommand e ''AT'' of
        ((response, Some err), e') \<Rightarrow> (Some err, e')
      | ((response, None), e') \<Rightarrow>
          if \<not> contains response ''OK'' then (Some (ATTestError response), e')
          else (None, e'))"

definition NewEC600N :: "Config \<Rightarrow> os_state \<Rightarrow> (EC600N option \<times> error option) \<times> os_state" where
  "NewEC600N c w =
     (if \<not> Enabled c then ((None, None), w)
      else
        (let ec = \<lparr>config = c, port = None, connected = False\<rparr> in
         case initSerial ec w of
           (Some err, ec1, w1) \<Rightarrow> ((None, Some (Wrapped err)), w1)
         | (None, ec1, w1) \<Rightarrow>
             (case testConnection ec1 of
                (Some err, ec2) \<Rightarrow> ((None, Some (Wrapped err)), w1)
              | (None, ec2) \<Rightarrow> ((Some (ec2\<lparr>connected := True\<rparr>), None), w1))))"

definition Close :: "EC600N \<Rightarrow> error option \<times> EC600N" where
  "Close e =
     (let e1 = e\<lparr>connected := False\<rparr> in
      case port e1 of
        Some p \<Rightarrow>
          (case port_Close p of
             (True, p') \<Rightarrow> (Some (Transport CallClose), e1\<lparr>port := Some p'\<rparr>)
           | (False, p') \<Rightarrow> (None, e1\<lparr>port := Some p'\<rparr>))
      | None \<Rightarrow> (None, e1))"

definition IsConnected :: "EC600N \<Rightarrow> bool" where
  "IsConnected e = connected e"

section \<open>Status queries\<close>

text \<open>
  The status texts of the source are Chinese; they are given by their UTF-8 bytes.
  \<open>regUnregistered\<close> is "not registered", \<open>regHome\<close> "registered, home network",
  \<open>regSearching\<close> "searching", \<open>regDenied\<close> "registration denied", \<open>regRoaming\<close>
  "registered, roaming", \<open>statusUnknown\<close> "unknown state", \<open>simReady\<close> "ready",
  \<open>simNeedsPIN\<close> "PIN needed", \<open>simNeedsPUK\<close> "PUK needed".
\<close>

definition regUnregistered :: string where
  "regUnregistered =
     [CHR 0xE6, CHR 0x9C, CHR 0xAA, CHR 0xE6, CHR 0xB3, CHR 0xA8, CHR 0xE5, CHR 0x86, CHR 0x8C]"

definition regHome :: string where
  "regHome =
     [CHR 0xE5, CHR 0xB7, CHR 0xB2, CHR 0xE6, CHR 0xB3, CHR 0xA8, CHR 0xE5, CHR 0x86, CHR 0x8C,
      CHR 0xE6, CHR 0x9C, CHR 0xAC, CHR 0xE5, CHR 0x9C, CHR 0xB0, CHR 0xE7, CHR 0xBD, CHR 0x91,
      CHR 0xE7, CHR 0xBB, CHR 0x9C]"

definition regSearching :: string where
  "regSearching =
     [CHR 0xE6, CHR 0xAD, CHR 0xA3, CHR 0xE5, CHR 0x9C, CHR 0xA8, CHR 0xE6, CHR 0x90, CHR 0x9C,
      CHR 0xE7, CHR 0xB4, CHR 0xA2]"

definition regDenied :: string where
  "regDenied =
     [CHR 0xE6, CHR 0xB3, CHR 0xA8, CHR 0xE5, CHR 0x86, CHR 0x8C, CHR 0xE8, CHR 0xA2, CHR 0xAB,
      CHR 0xE6, CHR 0x8B, CHR 0x92, CHR 0xE7, CHR 0xBB, CHR 0x9D]"

definition regRoaming :: string where
  "regRoaming =
     [CHR 0xE5, CHR 0xB7, CHR 0xB2, CHR 0xE6, CHR 0xB3, CHR 0xA8, CHR 0xE5, CHR 0x86, CHR 0x8C,
      CHR 0xE6, CHR 0xBC, CHR 0xAB, CHR 0xE6, CHR 0xB8, CHR 0xB8]"

definition statusUnknown :: string where
  "statusUnknown =
     [CHR 0xE6, CHR 0x9C, CHR 0xAA, CHR 0xE7, CHR 0x9F, CHR 0xA5, CHR 0xE7, CHR 0x8A, CHR 0xB6,
      CHR 0xE6, CHR 0x80, CHR 0x81]"

definition simReady :: string where
  "simReady = [CHR 0xE5, CHR 0xB0, CHR 0xB1, CHR 0xE7, CHR 0xBB, CHR 0xAA]"

definition simNeedsPIN :: string where
  "simNeedsPIN =
     [CHR 0xE9, CHR 0x9C, CHR 0x80, CHR 0xE8, CHR 0xA6, CHR 0x81, CHR 0x50, CHR 0x49, CHR 0x4E,
      CHR 0xE7, CHR 0xA0, CHR 0x81]"

definition simNeedsPUK :: string where
  "simNeedsPUK =
     [CHR 0xE9, CHR 0x9C, CHR 0x80, CHR 0xE8, CHR 0xA6, CHR 0x81, CHR 0x50, CHR 0x55, CHR 0x4B,
      CHR 0xE7, CHR 0xA0, CHR 0x81]"

definition networkRegStatusMap :: "string \<rightharpoonup> string" where
  "networkRegStatusMap =
     map_of [(''0'', regUnregistered), (''1'', regHome), (''2'', regSearching),
             (''3'', regDenied), (''5'', regRoaming)]"

definition MinSignalStrength :: int where
  "MinSignalStrength = 5"

definition IMEILength :: nat where
  "IMEILength = 15"

record NetworkStatus =
  SignalStrength :: int
  NetworkRegStatus :: string
  SIMStatus :: string
  OperatorName :: string
  IMEI :: string
  Timestamp :: nat

definition getSignalStrength :: "EC600N \<Rightarrow> (int \<times> error option) \<times> EC600N" where
  "getSignalStrength e =
     (case sendATCommand e ''AT+CSQ'' of
        ((response, Some err), e') \<Rightarrow> ((0, Some (Wrapped err)), e')
      | ((response, None), e') \<Rightarrow>
          (case findFirst matchCSQ response of
             None \<Rightarrow> ((0, Some (ParseError response)), e')
           | Some (n, m) \<Rightarrow>
               if maxInt < decimalValue n then ((0, Some (Wrapped (ScanError n))), e')
               else ((decimalValue n, None), e')))"

definition getNetworkRegistrationStatus :: "EC600N \<Rightarrow> (string \<times> error option) \<times> EC600N" where
  "getNetworkRegistrationStatus e =
     (case sendATCommand e ''AT+CREG?'' of
        ((response, Some err), e') \<Rightarrow> (([], Some (Wrapped err)), e')
      | ((response, None), e') \<Rightarrow>
          (case findFirst matchCREG response of
             None \<Rightarrow> (([], Some (ParseError response)), e')
           | Some statusCode \<Rightarrow>
               (case networkRegStatusMap statusCode of
                  Some status \<Rightarrow> ((status, None), e')
                | None \<Rightarrow> ((statusUnknown, None), e'))))"

definition getSIMStatus :: "EC600N \<Rightarrow> (string \<times> error option) \<times> EC600N" where
  "getSIMStatus e =
     (case sendATCommand e ''AT+CPIN?'' of
        ((response, Some err), e') \<Rightarrow> (([], Some err), e')
      | ((response, None), e') \<Rightarrow>
          if contains response ''READY'' then ((simReady, None), e')
          else if contains response ''SIM PIN'' then ((simNeedsPIN, None), e')
          else if contains response ''SIM PUK'' then ((simNeedsPUK, None), e')
          else ((statusUnknown, None), e'))"

definition getOperatorName :: "EC600N \<Rightarrow> (string \<times> error option) \<times> EC600N" where
  "getOperatorName e =
     (case sendATCommand e ''AT+COPS?'' of
        ((response, Some err), e') \<Rightarrow> (([], Some err), e')
      | ((response, None), e') \<Rightarrow>
          (case findFirst matchCOPS response of
             None \<Rightarrow> (([], Some (ParseError response)), e')
           | Some name \<Rightarrow> ((name, None), e')))"

text \<open>The loop of \<open>getIMEI\<close> over the lines of the response.\<close>

fun scanIMEI :: "string list \<Rightarrow> string option" where
  "scanIMEI [] = None"
| "scanIMEI (line # lines) =
     (let line = TrimSpace line in
      if length line = IMEILength \<and> matchIMEI line then Some line else scanIMEI lines)"

definition getIMEI :: "EC600N \<Rightarrow> (string \<times> error option) \<times> EC600N" where
  "getIMEI e =
     (case sendATCommand e ''AT+CGSN'' of
        ((response, Some err), e') \<Rightarrow> (([], Some (Wrapped err)), e')
      | ((response, None), e') \<Rightarrow>
          (case scanIMEI (Split response (CHR 0x0A)) of
             Some line \<Rightarrow> ((line, None), e')
           | None \<Rightarrow> (([], Some (ParseError response)), e')))"

text \<open>
  The other copy of the driver in the repository tests a line with
  \<open>strings.IndexAny(line, "0123456789") == 0\<close> instead of the pattern.
\<close>

fun scanIMEI_indexAny :: "string list \<Rightarrow> string option" where
  "scanIMEI_indexAny [] = None"
| "scanIMEI_indexAny (line # lines) =
     (let line = TrimSpace line in
      if length line = IMEILength \<and> IndexAny line ''0123456789'' = 0 then Some line
      else scanIMEI_indexAny lines)"

definition getIMEI_indexAny :: "EC600N \<Rightarrow> (string \<times> error option) \<times> EC600N" where
  "getIMEI_indexAny e =
     (case sendATCommand e ''AT+CGSN'' of
        ((response, Some err), e') \<Rightarrow> (([], Some (Wrapped err)), e')
      | ((response, None), e') \<Rightarrow>
          (case scanIMEI_indexAny (Split response (CHR 0x0A)) of
             Some line \<Rightarrow> ((line, None), e')
           | None \<Rightarrow> (([], Some (ParseError response)), e')))"

text \<open>\<open>CheckNetworkStatus\<close>; \<open>now\<close> is the value of \<open>time.Now()\<close>.\<close>

definition CheckNetworkStatus ::
  "nat \<Rightarrow> EC600N \<Rightarrow> (NetworkStatus \<times> error option) \<times> EC600N" where
  "CheckNetworkStatus now e =
     (case getSignalStrength e of ((signal, err1), e1) \<Rightarrow>
      case getNetworkRegistrationStatus e1 of ((reg, err2), e2) \<Rightarrow>
      case getSIMStatus e2 of ((sim, err3), e3) \<Rightarrow>
      case getOperatorName e3 of ((operator, err4), e4) \<Rightarrow>
      case getIMEI e4 of ((imei, err5), e5) \<Rightarrow>
        ((\<lparr>SignalStrength = signal, NetworkRegStatus = reg, SIMStatus = sim,
           OperatorName = operator, IMEI = imei, Timestamp = now\<rparr>, None), e5))"

definition isNetworkStatusNormal :: "NetworkStatus \<Rightarrow> bool" where
  "isNetworkStatusNormal status =
     (SignalStrength status > MinSignalStrength \<and>
      NetworkRegStatus status = regHome \<and>
      SIMStatus status = simReady)"

section \<open>Calls\<close>

text \<open>The clean-up of the phone number at the head of \<open>MakeCall\<close>.\<close>

definition sanitize :: "string \<Rightarrow> string" where
  "sanitize phoneNumber =
     removeAll_byte (CHR 0x20) (removeAll_byte (CHR ''-'') (TrimSpace phoneNumber))"

definition MakeCall :: "EC600N \<Rightarrow> string \<Rightarrow> error option \<times> EC600N" where
  "MakeCall e phoneNumber =
     (case port e of
        None \<Rightarrow> (Some NotConnected, e)
      | Some _ \<Rightarrow>
          (let phoneNumber = sanitize phoneNumber in
           if phoneNumber = [] then (Some ValidationError, e)
           else
             (case sendATCommand e (''ATD'' @ phoneNumber @ '';'') of
                ((response, Some err), e') \<Rightarrow> (Some (Wrapped err), e')
              | ((response, None), e') \<Rightarrow>
                  if contains response ''OK'' \<or> contains response ''CONNECT''
                  then (None, e')
                  else (Some (DialError response), e'))))"

definition HangupCall :: "EC600N \<Rightarrow> error option \<times> EC600N" where
  "HangupCall e =
     (case sendATCommand e ''ATH'' of
        ((response, Some err), e') \<Rightarrow> (Some (Wrapped err), e')
      | ((response, None), e') \<Rightarrow>
          if \<not> contains response ''OK'' then (Some (HangupError response), e')
          else (None, e'))"

subsection \<open>The call monitor\<close>

datatype CallStatus =
    CallStatusConnected
  | CallStatusHangup
  | CallStatusBusy
  | CallStatusNoAnswer
  | CallStatusNoCarrier
  | CallStatusError

text \<open>
  The monitor is a goroutine around one \<open>bufio.Reader\<close> on the port. Every turn of its
  loop starts a new reader goroutine that calls \<open>ReadString\<close> on that one reader and
  hands the result to channels made for this turn; the loop then waits for the context,
  the line, the error or a 500 ms timer. When the timer wins, the loop goes on to the
  next turn and the reader of this turn is left behind, still inside \<open>ReadString\<close>.
  Calls on the port are served in the order they were made, so the next line or error
  goes to the oldest reader left behind, into a channel nobody receives from, and is
  gone.

  What the monitor does is therefore a function of what happens around it, in order:
  the context is done (\<open>CtxDone\<close>), a call of \<open>ReadString\<close> returns a line (\<open>LineRead\<close>) or
  an error (\<open>ReadError\<close>), or the timer of the current turn fires (\<open>ReadTimeout\<close>). The
  state of the loop is \<open>stale\<close>, the number of readers left behind that are still waiting.
  A status is sent with a \<open>select\<close> of its own, which either hands the status to the
  channel or sees the context done first; a \<open>LineRead\<close> carries which of the two happens
  should the line lead to a send. The result is the list of statuses put on the channel
  and whether the goroutine has returned, which closes the channel (\<open>defer close\<close>);
  \<open>False\<close> means it is still waiting for the next event.
\<close>

datatype send_outcome = Delivered | CancelledFirst

datatype monitor_event =
    CtxDone
  | LineRead string send_outcome
  | ReadError
  | ReadTimeout

fun monitorLoop ::
  "(string \<Rightarrow> string) \<Rightarrow> nat \<Rightarrow> monitor_event list \<Rightarrow> CallStatus list \<times> bool" where
  "monitorLoop unicodeUpper stale [] = ([], False)"
| "monitorLoop unicodeUpper stale (CtxDone # evs) = ([], True)"
| "monitorLoop unicodeUpper stale (ReadTimeout # evs) = monitorLoop unicodeUpper (Suc stale) evs"
| "monitorLoop unicodeUpper (Suc stale) (ReadError # evs) = monitorLoop unicodeUpper stale evs"
| "monitorLoop unicodeUpper (Suc stale) (LineRead line out # evs) =
     monitorLoop unicodeUpper stale evs"
| "monitorLoop unicodeUpper 0 (ReadError # evs) = monitorLoop unicodeUpper 0 evs"
| "monitorLoop unicodeUpper 0 (LineRead line out # evs) =
     (let line = TrimSpace line;
          lineUpper = ToUpper unicodeUpper line
      in
        if contains lineUpper ''NO CARRIER'' then
          (case out of Delivered \<Rightarrow> ([CallStatusNoCarrier], True) | CancelledFirst \<Rightarrow> ([], True))
        else if contains lineUpper ''BUSY'' then
          (case out of Delivered \<Rightarrow> ([CallStatusBusy], True) | CancelledFirst \<Rightarrow> ([], True))
        else if contains lineUpper ''NO ANSWER'' then
          (case out of Delivered \<Rightarrow> ([CallStatusNoAnswer], True) | CancelledFirst \<Rightarrow> ([], True))
        else if contains lineUpper ''CONNECT'' then
          (case out of
             Delivered \<Rightarrow>
               (case monitorLoop unicodeUpper 0 evs of
                  (sent, closed) \<Rightarrow> (CallStatusConnected # sent, closed))
           | CancelledFirst \<Rightarrow> ([], True))
        else if contains lineUpper ''ERROR'' then
          (case out of
             Delivered \<Rightarrow>
               (case monitorLoop unicodeUpper 0 evs of
                  (sent, closed) \<Rightarrow> (CallStatusError # sent, closed))
           | CancelledFirst \<Rightarrow> ([], True))
        else monitorLoop unicodeUpper 0 evs)"

text \<open>\<open>monitorCallStatus\<close>: the goroutine starts with no reader left behind.\<close>

definition monitorCallStatus ::
  "(string \<Rightarrow> string) \<Rightarrow> EC600N \<Rightarrow> monitor_event list \<Rightarrow> CallStatus list \<times> bool" where
  "monitorCallStatus unicodeUpper e evs =
     (case port e of
        None \<Rightarrow> ([CallStatusError], True)
      | Some _ \<Rightarrow> monitorLoop unicodeUpper 0 evs)"

text \<open>
  \<open>MakeCallWithMonitor\<close> starts the monitor before it dials. The first component of the
  result says what became of the monitor: never started, running (the channel is
  returned with a nil error), or cancelled (\<open>cancel()\<close> was called and nil is returned
  with the error).
\<close>

datatype monitor_state = NotStarted | Running | Cancelled

definition MakeCallWithMonitor ::
  "EC600N \<Rightarrow> string \<Rightarrow> (monitor_state \<times> error option) \<times> EC600N" where
  "MakeCallWithMonitor e phoneNumber =
     (case port e of
        None \<Rightarrow> ((NotStarted, Some NotConnected), e)
      | Some _ \<Rightarrow>
          (let phoneNumber = sanitize phoneNumber in
           if phoneNumber = [] then ((NotStarted, Some ValidationError), e)
           else
             (case sendATCommand e (''ATD'' @ phoneNumber @ '';'') of
                ((response, Some err), e') \<Rightarrow> ((Cancelled, Some (Wrapped err)), e')
              | ((response, None), e') \<Rightarrow>
                  if contains response ''OK'' \<or> contains response ''CONNECT''
                  then ((Running, None), e')
                  else ((Cancelled, Some (DialError response)), e'))))"

section \<open>Reference functions\<close>

text \<open>
  The keywords of the call monitor in the order in which a line is tested for them, each
  with the status it stands for and whether seeing it ends the monitor.
\<close>

definition keywordTable :: "(string \<times> CallStatus \<times> bool) list" where
  "keywordTable =
     [(''NO CARRIER'', CallStatusNoCarrier, True),
      (''BUSY'', CallStatusBusy, True),
      (''NO ANSWER'', CallStatusNoAnswer, True),
      (''CONNECT'', CallStatusConnected, False),
      (''ERROR'', CallStatusError, False)]"

definition firstKeyword :: "string \<Rightarrow> (CallStatus \<times> bool) option" where
  "firstKeyword upper = map_option snd (List.find (\<lambda>(k, _). contains upper k) keywordTable)"

definition lineStatus :: "(string \<Rightarrow> string) \<Rightarrow> string \<Rightarrow> (CallStatus \<times> bool) option" where
  "lineStatus unicodeUpper line = firstKeyword (ToUpper unicodeUpper (TrimSpace line))"

text \<open>
  An event that neither cancels the monitor nor lets a read time out.
\<close>

fun steady :: "monitor_event \<Rightarrow> bool" where
  "steady CtxDone = False"
| "steady ReadTimeout = False"
| "steady (LineRead line CancelledFirst) = False"
| "steady ev = True"

fun linesRead :: "monitor_event list \<Rightarrow> string list" where
  "linesRead [] = []"
| "linesRead (LineRead line out # evs) = line # linesRead evs"
| "linesRead (ev # evs) = linesRead evs"

text \<open>
  \<open>csqFragment s n\<close>: the string \<open>s\<close> begins with a fragment \<open>+CSQ: <n>,<m>\<close>, that is
  \<open>+CSQ:\<close>, white space if any, the digits \<open>n\<close>, a comma and at least one more digit.
\<close>

definition csqFragment :: "string \<Rightarrow> string \<Rightarrow> bool" where
  "csqFragment s n =
     (\<exists>ws m post. s = ''+CSQ:'' @ ws @ n @ '','' @ m @ post \<and> list_all isReSpace ws
        \<and> n \<noteq> [] \<and> list_all isDigit n \<and> m \<noteq> [] \<and> list_all isDigit m)"

subsection \<open>What the read loop computes\<close>

text \<open>The lines the reader delivers before its first failure.\<close>

fun linesBeforeFailure :: "read_result list \<Rightarrow> string list" where
  "linesBeforeFailure [] = []"
| "linesBeforeFailure (ReadFail # rs) = []"
| "linesBeforeFailure (Line l # rs) = l # linesBeforeFailure rs"

text \<open>A list cut after its first element that satisfies \<open>P\<close> (that element kept).\<close>

fun uptoFirst :: "('a \<Rightarrow> bool) \<Rightarrow> 'a list \<Rightarrow> 'a list" where
  "uptoFirst P [] = []"
| "uptoFirst P (x # xs) = (if P x then [x] else x # uptoFirst P xs)"

definition accumulated :: "read_result list \<Rightarrow> string list" where
  "accumulated rs = uptoFirst isSentinel (take MaxResponseLines (linesBeforeFailure rs))"

section \<open>Fixtures\<close>

text \<open>A port on which nothing fails, with a given read script, and a driver that owns it.\<close>

definition scriptedPort :: "read_result list \<Rightarrow> serial_port" where
  "scriptedPort rs =
     \<lparr>flush_errs = [], write_errs = [], close_errs = [], incoming = rs, oplog = []\<rparr>"

definition driverOn :: "serial_port \<Rightarrow> EC600N" where
  "driverOn p =
     \<lparr>config = \<lparr>Enabled = True, SerialPort = ''/dev/ttyUSB0'', BaudRate = 115200\<rparr>,
      port = Some p, connected = True\<rparr>"

definition crlf :: "string \<Rightarrow> string" where
  "crlf s = s @ [CHR 0x0D, CHR 0x0A]"

text \<open>Twelve lines, none with a sentinel.\<close>

definition chatter :: "read_result list" where
  "chatter =
     [Line (crlf ''1''), Line (crlf ''2''), Line (crlf ''3''), Line (crlf ''4''),
      Line (crlf ''5''), Line (crlf ''6''), Line (crlf ''7''), Line (crlf ''8''),
      Line (crlf ''9''), Line (crlf ''10''), Line (crlf ''11''), Line (crlf ''12'')]"

text \<open>A port whose \<open>Close\<close> fails.\<close>

definition stuckPort :: serial_port where
  "stuckPort =
     \<lparr>flush_errs = [], write_errs = [], close_errs = [True], incoming = [], oplog = []\<rparr>"

text \<open>
  The responses to the five status queries, in the order \<open>CheckNetworkStatus\<close> sends them:
  the signal query is answered with \<open>ERROR\<close>, the others as a registered module does.
\<close>

definition statusScript :: "read_result list" where
  "statusScript =
     [Line (crlf ''ERROR''),
      Line (crlf ''+CREG: 0,1''), Line (crlf ''OK''),
      Line (crlf ''+CPIN: READY''), Line (crlf ''OK''),
      Line (crlf (''+COPS: 0,0,'' @ [CHR 0x22] @ ''CHINA MOBILE'' @ [CHR 0x22] @ '',7'')),
      Line (crlf ''OK''),
      Line (crlf ''861234567890123''), Line (crlf ''OK'')]"

section \<open>The command executor reads until a sentinel\<close>

lemma contains_iff_sublist: "contains s sub \<longleftrightarrow> sublist sub s"
  by (induction s) (auto simp: sublist_Cons_right)

lemma readLoop_fst:
  "fst (readLoop i p acc) =
     acc @ concat (uptoFirst isSentinel
       (take (MaxResponseLines - i) (linesBeforeFailure (incoming p))))"
proof (induction i p acc rule: readLoop.induct)
  case (1 i p response)
  show ?case
  proof (cases "i < MaxResponseLines")
    case False
    then show ?thesis by (simp add: readLoop.simps)
  next
    case True
    then obtain k where k: "MaxResponseLines - i = Suc k" "MaxResponseLines - (i + 1) = k"
      by (cases "MaxResponseLines - i") auto
    show ?thesis
    proof (cases "incoming p")
      case Nil
      with True show ?thesis
        by (simp add: readLoop.simps [of i] port_ReadString_def)
    next
      case (Cons r rs)
      show ?thesis
      proof (cases r)
        case ReadFail
        with Cons True show ?thesis
          by (simp add: readLoop.simps [of i] port_ReadString_def)
      next
        case (Line l)
        let ?p' = "p\<lparr>incoming := rs, oplog := oplog p @ [OpReadString]\<rparr>"
        have rd: "port_ReadString p = (Line l, ?p')"
          using Cons Line by (simp add: port_ReadString_def)
        show ?thesis
        proof (cases "isSentinel l")
          case True
          with \<open>i < MaxResponseLines\<close> rd Cons Line k show ?thesis
            by (simp add: readLoop.simps [of i] isSentinel_def)
        next
          case False
          then have ns: "\<not> (contains l ''OK'' \<or> contains l ''ERROR'')"
            by (simp add: isSentinel_def)
          have "fst (readLoop (i + 1) ?p' (response @ l)) =
                  (response @ l) @ concat (uptoFirst isSentinel
                     (take (MaxResponseLines - (i + 1)) (linesBeforeFailure (incoming ?p'))))"
            using "1.IH" [OF \<open>i < MaxResponseLines\<close> rd [symmetric] refl ns] .
          with \<open>i < MaxResponseLines\<close> rd Cons Line k False ns show ?thesis
            by (simp add: readLoop.simps [of i])
        qed
      qed
    qed
  qed
qed

lemma uptoFirst_prefix: "prefix (uptoFirst P xs) xs"
  by (induction xs) auto

lemma uptoFirst_length: "length (uptoFirst P xs) \<le> length xs"
  by (induction xs) auto

lemma uptoFirst_butlast: "x \<in> set (butlast (uptoFirst P xs)) \<Longrightarrow> \<not> P x"
  by (induction xs) (auto split: if_splits)

lemma uptoFirst_ne: "xs \<noteq> [] \<Longrightarrow> uptoFirst P xs \<noteq> []"
  by (cases xs) auto

lemma uptoFirst_last: "\<exists>x\<in>set xs. P x \<Longrightarrow> P (last (uptoFirst P xs))"
proof (induction xs)
  case Nil
  then show ?case by simp
next
  case (Cons a xs)
  show ?case
  proof (cases "P a")
    case True
    then show ?thesis by simp
  next
    case False
    with Cons.prems have ex: "\<exists>x\<in>set xs. P x" by auto
    then have "xs \<noteq> []" by auto
    then have "uptoFirst P xs \<noteq> []" by (rule uptoFirst_ne)
    with False Cons.IH [OF ex] show ?thesis by simp
  qed
qed

lemma uptoFirst_none: "\<forall>x\<in>set xs. \<not> P x \<Longrightarrow> uptoFirst P xs = xs"
  by (induction xs) auto

lemma readResponse_eq:
  "fst (readResponse p) = (concat (accumulated (incoming p)), None)"
proof -
  have "fst (readLoop 0 p []) = concat (accumulated (incoming p))"
    by (simp add: readLoop_fst accumulated_def)
  then show ?thesis
    by (cases "readLoop 0 p []") (simp add: readResponse_def)
qed

lemma incoming_Flush [simp]: "incoming (snd (port_Flush p)) = incoming p"
  by (simp add: port_Flush_def split: list.splits)

lemma incoming_Write [simp]: "incoming (snd (port_Write p b)) = incoming p"
  by (simp add: port_Write_def split: list.splits)

text \<open>
  C1. Once the flush and the write have gone through, \<open>sendATCommand\<close> succeeds with the
  concatenation of the lines it accumulated, whatever the reader then delivers. The
  accumulated lines are at most \<open>MaxResponseLines = 10\<close>, they are the first lines the
  reader delivered before any read failure, none but the last contains \<open>OK\<close> or \<open>ERROR\<close>,
  the last one does whenever a sentinel line is among the first ten, and without one all
  of the (at most ten) lines are returned. \<open>readResponse\<close> itself never returns an error.
\<close>

theorem sendATCommand_accumulates_until_sentinel:
  assumes "port e = Some p"
    and "\<not> fst (port_Flush p)"
    and "\<not> fst (port_Write (snd (port_Flush p)) (command @ [CHR 0x0D, CHR 0x0A]))"
  shows "fst (sendATCommand e command) = (concat (accumulated (incoming p)), None)
     \<and> (\<forall>q. snd (fst (readResponse q)) = None
            \<and> fst (fst (readResponse q)) = concat (accumulated (incoming q)))
     \<and> length (accumulated (incoming p)) \<le> 10
     \<and> prefix (accumulated (incoming p)) (linesBeforeFailure (incoming p))
     \<and> (\<forall>l \<in> set (butlast (accumulated (incoming p))). \<not> isSentinel l)
     \<and> ((\<exists>l \<in> set (take 10 (linesBeforeFailure (incoming p))). isSentinel l)
          \<longrightarrow> isSentinel (last (accumulated (incoming p))))
     \<and> ((\<forall>l \<in> set (take 10 (linesBeforeFailure (incoming p))). \<not> isSentinel l)
          \<longrightarrow> accumulated (incoming p) = take 10 (linesBeforeFailure (incoming p)))"
proof -
  obtain p1 where fl: "port_Flush p = (False, p1)"
    using assms(2) by (cases "port_Flush p") simp
  obtain p2 where wr: "port_Write p1 (command @ [CHR 0x0D, CHR 0x0A]) = (False, p2)"
    using assms(3) fl by (cases "port_Write p1 (command @ [CHR 0x0D, CHR 0x0A])") simp
  have inc: "incoming p2 = incoming p"
    using incoming_Flush [of p] incoming_Write [of p1 "command @ [CHR 0x0D, CHR 0x0A]"] fl wr
    by simp
  have "fst (sendATCommand e command) = fst (readResponse p2)"
    using assms(1) fl wr by (cases "readResponse p2") (simp add: sendATCommand_def)
  then have a: "fst (sendATCommand e command) = (concat (accumulated (incoming p)), None)"
    by (simp add: readResponse_eq inc)
  have b: "\<forall>q. snd (fst (readResponse q)) = None
            \<and> fst (fst (readResponse q)) = concat (accumulated (incoming q))"
    by (simp add: readResponse_eq)
  have c: "length (accumulated (incoming p)) \<le> 10"
  proof -
    have "length (accumulated (incoming p))
            \<le> length (take MaxResponseLines (linesBeforeFailure (incoming p)))"
      unfolding accumulated_def by (rule uptoFirst_length)
    then show ?thesis by (simp add: MaxResponseLines_def)
  qed
  have d: "prefix (accumulated (incoming p)) (linesBeforeFailure (incoming p))"
    unfolding accumulated_def
    by (rule prefix_order.trans [OF uptoFirst_prefix take_is_prefix])
  have f: "\<forall>l \<in> set (butlast (accumulated (incoming p))). \<not> isSentinel l"
    unfolding accumulated_def by (blast dest: uptoFirst_butlast)
  have g: "(\<exists>l \<in> set (take 10 (linesBeforeFailure (incoming p))). isSentinel l)
          \<longrightarrow> isSentinel (last (accumulated (incoming p)))"
    unfolding accumulated_def MaxResponseLines_def by (blast intro: uptoFirst_last)
  have h: "(\<forall>l \<in> set (take 10 (linesBeforeFailure (incoming p))). \<not> isSentinel l)
          \<longrightarrow> accumulated (incoming p) = take 10 (linesBeforeFailure (incoming p))"
    unfolding accumulated_def MaxResponseLines_def by (blast intro: uptoFirst_none)
  from a b c d f g h show ?thesis by blast
qed

lemma chatter_accumulated:
  "accumulated chatter =
     [crlf ''1'', crlf ''2'', crlf ''3'', crlf ''4'', crlf ''5'',
      crlf ''6'', crlf ''7'', crlf ''8'', crlf ''9'', crlf ''10'']"
  by code_simp

lemma broken_accumulated:
  "accumulated [Line (crlf ''+CSQ: 15,99''), ReadFail, Line (crlf ''OK'')] = [crlf ''+CSQ: 15,99'']"
  by code_simp

lemma sentinel_accumulated:
  "accumulated [Line (crlf ''AT''), Line (crlf ''OK''), Line (crlf ''RING'')]
     = [crlf ''AT'', crlf ''OK'']"
  by code_simp

theorem sendATCommand_accumulates_until_sentinel_witness:
  "fst (sendATCommand
          (driverOn (scriptedPort [Line (crlf ''AT''), Line (crlf ''OK''), Line (crlf ''RING'')]))
          ''AT'')
     = (crlf ''AT'' @ crlf ''OK'', None)
   \<and> fst (sendATCommand (driverOn (scriptedPort chatter)) ''AT'')
     = (concat [crlf ''1'', crlf ''2'', crlf ''3'', crlf ''4'', crlf ''5'',
                crlf ''6'', crlf ''7'', crlf ''8'', crlf ''9'', crlf ''10''], None)
   \<and> fst (sendATCommand
          (driverOn (scriptedPort [Line (crlf ''+CSQ: 15,99''), ReadFail, Line (crlf ''OK'')]))
          ''AT+CSQ'')
     = (crlf ''+CSQ: 15,99'', None)"
proof -
  have ok: "port (driverOn (scriptedPort rs)) = Some (scriptedPort rs)"
    "\<not> fst (port_Flush (scriptedPort rs))"
    "\<not> fst (port_Write (snd (port_Flush (scriptedPort rs))) (c @ [CHR 0x0D, CHR 0x0A]))"
    for rs c
    by (simp_all add: driverOn_def scriptedPort_def port_Flush_def port_Write_def)
  have inc: "incoming (scriptedPort rs) = rs" for rs by (simp add: scriptedPort_def)
  note t = sendATCommand_accumulates_until_sentinel [OF ok, THEN conjunct1, unfolded inc]
  from t [of "[Line (crlf ''AT''), Line (crlf ''OK''), Line (crlf ''RING'')]" "''AT''"]
       t [of chatter "''AT''"]
       t [of "[Line (crlf ''+CSQ: 15,99''), ReadFail, Line (crlf ''OK'')]" "''AT+CSQ''"]
  show ?thesis
    by (simp add: chatter_accumulated broken_accumulated sentinel_accumulated)
qed

section \<open>Trimming\<close>

lemma stripRunes_none:
  "List.find (\<lambda>t. t \<noteq> [] \<and> prefix t (stripRunes toks s)) toks = None"
proof (induction toks s rule: stripRunes.induct)
  case (1 toks s)
  show ?case
  proof (cases "List.find (\<lambda>t. t \<noteq> [] \<and> prefix t s) toks")
    case None
    then show ?thesis by (simp add: stripRunes.simps [of toks s])
  next
    case (Some t)
    with "1.IH" [OF Some] show ?thesis by (simp add: stripRunes.simps [of toks s])
  qed
qed

lemma stripRunes_decomp:
  "\<exists>ts. set ts \<subseteq> set toks \<and> s = concat ts @ stripRunes toks s"
proof (induction toks s rule: stripRunes.induct)
  case (1 toks s)
  show ?case
  proof (cases "List.find (\<lambda>t. t \<noteq> [] \<and> prefix t s) toks")
    case None
    then have "s = concat [] @ stripRunes toks s" by (simp add: stripRunes.simps [of toks s])
    then show ?thesis by (intro exI [of _ "[]"]) simp
  next
    case (Some t)
    then have t: "t \<in> set toks" "prefix t s"
      by (auto simp: find_Some_iff)
    from "1.IH" [OF Some] obtain ts where ts: "set ts \<subseteq> set toks"
      "drop (length t) s = concat ts @ stripRunes toks (drop (length t) s)" by blast
    have eq: "stripRunes toks s = stripRunes toks (drop (length t) s)"
      using Some by (simp add: stripRunes.simps [of toks s])
    from t(2) have "s = t @ drop (length t) s" by (auto simp: prefix_def)
    with ts(2) eq have "s = concat (t # ts) @ stripRunes toks s" by simp
    moreover have "set (t # ts) \<subseteq> set toks" using t(1) ts(1) by simp
    ultimately show ?thesis by blast
  qed
qed

lemma spaceRunes_nonempty: "t \<in> set spaceRunes \<Longrightarrow> t \<noteq> []"
  by (auto simp: spaceRunes_def)

lemma TrimSpace_decomp:
  "\<exists>as bs. set as \<subseteq> set spaceRunes \<and> set bs \<subseteq> set spaceRunes
           \<and> s = concat as @ TrimSpace s @ concat bs"
proof -
  let ?L = "stripRunes spaceRunes s"
  obtain as where as: "set as \<subseteq> set spaceRunes" "s = concat as @ ?L"
    using stripRunes_decomp [of spaceRunes s] by blast
  obtain ts where ts: "set ts \<subseteq> set (map rev spaceRunes)"
    "rev ?L = concat ts @ stripRunes (map rev spaceRunes) (rev ?L)"
    using stripRunes_decomp [of "map rev spaceRunes" "rev ?L"] by blast
  have "?L = rev (rev ?L)" by simp
  also have "\<dots> = TrimSpace s @ rev (concat ts)"
    by (subst ts(2)) (simp add: TrimSpace_def)
  also have "rev (concat ts) = concat (map rev (rev ts))" by (simp add: rev_concat)
  finally have L: "?L = TrimSpace s @ concat (map rev (rev ts))" .
  have "set (map rev (rev ts)) \<subseteq> set spaceRunes"
    using ts(1) by auto
  with as L show ?thesis by (metis append.assoc)
qed

lemma TrimSpace_no_space_ends:
  assumes "t \<in> set spaceRunes"
  shows "\<not> prefix t (TrimSpace s)" and "\<not> suffix t (TrimSpace s)"
proof -
  let ?L = "stripRunes spaceRunes s"
  have ne: "t \<noteq> []" using assms by (rule spaceRunes_nonempty)
  have nl: "\<not> prefix t ?L"
    using stripRunes_none [of spaceRunes s] assms ne by (auto simp: find_None_iff)
  obtain ts where "rev ?L = concat ts @ stripRunes (map rev spaceRunes) (rev ?L)"
    using stripRunes_decomp [of "map rev spaceRunes" "rev ?L"] by blast
  then have "rev (rev ?L) = TrimSpace s @ rev (concat ts)"
    by (metis TrimSpace_def rev_append)
  then have "prefix (TrimSpace s) ?L" by (simp add: prefix_def)
  with nl show "\<not> prefix t (TrimSpace s)" by (metis prefix_order.trans)
  have "\<not> prefix (rev t) (stripRunes (map rev spaceRunes) (rev ?L))"
    using stripRunes_none [of "map rev spaceRunes" "rev ?L"] assms ne
    by (auto simp: find_None_iff)
  then show "\<not> suffix t (TrimSpace s)"
    by (simp add: TrimSpace_def suffix_to_prefix)
qed

section \<open>An empty phone number never reaches the transport\<close>

text \<open>
  C3. When the phone number is empty after the clean-up, \<open>MakeCall\<close> and
  \<open>MakeCallWithMonitor\<close> leave the controller, and with it the port and its log of
  calls, exactly as they found it: nothing is flushed, written or read, and no monitor
  is started. On a controller that has a port the error is the validation error (a
  controller without a port reports that first).
\<close>

theorem MakeCall_empty_number_touches_nothing:
  assumes "sanitize phoneNumber = []"
  shows "snd (MakeCall e phoneNumber) = e
       \<and> snd (MakeCallWithMonitor e phoneNumber) = e
       \<and> fst (fst (MakeCallWithMonitor e phoneNumber)) = NotStarted
       \<and> (port e \<noteq> None \<longrightarrow>
            fst (MakeCall e phoneNumber) = Some ValidationError
          \<and> snd (fst (MakeCallWithMonitor e phoneNumber)) = Some ValidationError)"
  using assms by (auto simp: MakeCall_def MakeCallWithMonitor_def split: option.splits)

lemma sanitize_empty: "sanitize [] = []"
  by code_simp

lemma sanitize_blanks: "sanitize ''   '' = []"
  by code_simp

theorem MakeCall_empty_number_touches_nothing_witness:
  "MakeCall (driverOn (scriptedPort [Line (crlf ''OK'')])) []
     = (Some ValidationError, driverOn (scriptedPort [Line (crlf ''OK'')]))
   \<and> MakeCall (driverOn (scriptedPort [Line (crlf ''OK'')])) ''   ''
     = (Some ValidationError, driverOn (scriptedPort [Line (crlf ''OK'')]))
   \<and> MakeCallWithMonitor (driverOn (scriptedPort [Line (crlf ''OK'')])) ''   ''
     = ((NotStarted, Some ValidationError), driverOn (scriptedPort [Line (crlf ''OK'')]))
   \<and> oplog (the (port (snd (MakeCall (driverOn (scriptedPort [Line (crlf ''OK'')])) ''   '')))) = []"
  using MakeCall_empty_number_touches_nothing
          [OF sanitize_empty, of "driverOn (scriptedPort [Line (crlf ''OK'')])"]
        MakeCall_empty_number_touches_nothing
          [OF sanitize_blanks, of "driverOn (scriptedPort [Line (crlf ''OK'')])"]
  by (simp add: prod_eq_iff driverOn_def scriptedPort_def)

section \<open>What is dialled\<close>

lemma readLoop_oplog:
  "\<exists>k. oplog (snd (readLoop i p acc)) = oplog p @ replicate k OpReadString"
proof (induction i p acc rule: readLoop.induct)
  case (1 i p response)
  show ?case
  proof (cases "i < MaxResponseLines")
    case False
    then have "oplog (snd (readLoop i p response)) = oplog p @ replicate 0 OpReadString"
      by (simp add: readLoop.simps [of i])
    then show ?thesis by blast
  next
    case True
    obtain r p' where rd: "port_ReadString p = (r, p')" by (cases "port_ReadString p")
    then have lg: "oplog p' = oplog p @ [OpReadString]"
      by (auto simp: port_ReadString_def split: list.splits)
    show ?thesis
    proof (cases "\<exists>l. r = Line l \<and> \<not> (contains l ''OK'' \<or> contains l ''ERROR'')")
      case False
      then have "snd (readLoop i p response) = p'"
        using True rd by (cases r) (auto simp: readLoop.simps [of i])
      with lg have "oplog (snd (readLoop i p response)) = oplog p @ replicate 1 OpReadString"
        by simp
      then show ?thesis by blast
    next
      case c: True
      then obtain l where l: "r = Line l" "\<not> (contains l ''OK'' \<or> contains l ''ERROR'')"
        by blast
      from "1.IH" [OF True _ refl l(2), of p'] rd l(1)
      obtain k where "oplog (snd (readLoop (i + 1) p' (response @ l)))
                        = oplog p' @ replicate k OpReadString" by auto
      moreover have "readLoop i p response = readLoop (i + 1) p' (response @ l)"
        using True rd l by (simp add: readLoop.simps [of i])
      ultimately have "oplog (snd (readLoop i p response))
                        = oplog p @ replicate (Suc k) OpReadString"
        using lg by (simp add: replicate_app_Cons_same)
      then show ?thesis by blast
    qed
  qed
qed


lemma sendATCommand_oplog:
  assumes "port e = Some p" and "\<not> fst (port_Flush p)"
  shows "\<exists>k p'. port (snd (sendATCommand e command)) = Some p'
           \<and> oplog p' = oplog p @ [OpFlush, OpWrite (command @ [CHR 0x0D, CHR 0x0A])]
                          @ replicate k OpReadString"
proof -
  let ?cmd = "command @ [CHR 0x0D, CHR 0x0A]"
  obtain p1 where fl: "port_Flush p = (False, p1)"
    using assms(2) by (cases "port_Flush p") simp
  then have l1: "oplog p1 = oplog p @ [OpFlush]"
    by (auto simp: port_Flush_def split: list.splits)
  obtain werr p2 where wr: "port_Write p1 ?cmd = (werr, p2)"
    by (cases "port_Write p1 ?cmd")
  then have l2: "oplog p2 = oplog p @ [OpFlush, OpWrite ?cmd]"
    using l1 by (auto simp: port_Write_def split: list.splits)
  show ?thesis
  proof (cases werr)
    case True
    then have "port (snd (sendATCommand e command)) = Some p2"
      using assms(1) fl wr by (simp add: sendATCommand_def)
    moreover have "oplog p2 = oplog p @ [OpFlush, OpWrite ?cmd] @ replicate 0 OpReadString"
      using l2 by simp
    ultimately show ?thesis by blast
  next
    case False
    obtain resp p3 where rl: "readLoop 0 p2 [] = (resp, p3)"
      by (cases "readLoop 0 p2 []")
    obtain k where "oplog (snd (readLoop 0 p2 [])) = oplog p2 @ replicate k OpReadString"
      using readLoop_oplog by blast
    with rl l2 have "oplog p3 = oplog p @ [OpFlush, OpWrite ?cmd] @ replicate k OpReadString"
      by simp
    moreover have "port (snd (sendATCommand e command)) = Some p3"
      using assms(1) fl wr False rl by (simp add: sendATCommand_def readResponse_def)
    ultimately show ?thesis by blast
  qed
qed

text \<open>
  C4. On a controller with a port whose flush succeeds, a phone number that is not empty
  after the clean-up leads to exactly one write, of \<open>ATD\<close>, the cleaned number, \<open>;\<close> and
  CR LF, after one flush and before the reads of the response. The cleaned number is the
  trimmed argument without its dashes and spaces; the trimmed argument is the argument
  without a leading and a trailing run of white space, and has no white space left at
  either end.
\<close>

theorem MakeCall_sends_sanitized_number:
  assumes "port e = Some p" and "\<not> fst (port_Flush p)" and "sanitize phoneNumber \<noteq> []"
  shows "(\<exists>k p'. port (snd (MakeCall e phoneNumber)) = Some p'
            \<and> oplog p' = oplog p
                 @ [OpFlush, OpWrite (''ATD'' @ sanitize phoneNumber @ '';'' @ [CHR 0x0D, CHR 0x0A])]
                 @ replicate k OpReadString)
       \<and> sanitize phoneNumber
           = filter (\<lambda>c. c \<noteq> CHR ''-'' \<and> c \<noteq> CHR 0x20) (TrimSpace phoneNumber)
       \<and> (\<exists>as bs. set as \<subseteq> set spaceRunes \<and> set bs \<subseteq> set spaceRunes
             \<and> phoneNumber = concat as @ TrimSpace phoneNumber @ concat bs)
       \<and> (\<forall>t \<in> set spaceRunes. \<not> prefix t (TrimSpace phoneNumber)
                                \<and> \<not> suffix t (TrimSpace phoneNumber))"
proof -
  let ?cmd = "''ATD'' @ sanitize phoneNumber @ '';''"
  obtain k p' where kp: "port (snd (sendATCommand e ?cmd)) = Some p'"
    "oplog p' = oplog p @ [OpFlush, OpWrite (?cmd @ [CHR 0x0D, CHR 0x0A])] @ replicate k OpReadString"
    using sendATCommand_oplog [OF assms(1,2), of ?cmd] by blast
  have "snd (MakeCall e phoneNumber) = snd (sendATCommand e ?cmd)"
    using assms(1,3)
    by (cases "sendATCommand e ?cmd")
       (auto simp: MakeCall_def Let_def split: option.splits)
  with kp have a: "\<exists>k p'. port (snd (MakeCall e phoneNumber)) = Some p'
            \<and> oplog p' = oplog p
                 @ [OpFlush, OpWrite (''ATD'' @ sanitize phoneNumber @ '';'' @ [CHR 0x0D, CHR 0x0A])]
                 @ replicate k OpReadString"
    by auto
  have b: "sanitize phoneNumber
           = filter (\<lambda>c. c \<noteq> CHR ''-'' \<and> c \<noteq> CHR 0x20) (TrimSpace phoneNumber)"
    by (auto simp: sanitize_def removeAll_byte_def intro: filter_cong)
  from a b TrimSpace_decomp [of phoneNumber] TrimSpace_no_space_ends [of _ phoneNumber]
  show ?thesis by blast
qed

lemma sanitize_example: "sanitize '' 138-0013-8000 '' = ''13800138000''"
  by code_simp

theorem MakeCall_sends_sanitized_number_witness:
  "(\<exists>k p'. port (snd (MakeCall (driverOn (scriptedPort [Line (crlf ''OK'')])) '' 138-0013-8000 ''))
              = Some p'
        \<and> oplog p' = [OpFlush, OpWrite (crlf ''ATD13800138000;'')] @ replicate k OpReadString)
   \<and> sanitize '' 138-0013-8000 '' = ''13800138000''"
proof -
  let ?p = "scriptedPort [Line (crlf ''OK'')]"
  have h1: "port (driverOn ?p) = Some ?p" by (simp add: driverOn_def)
  have h2: "\<not> fst (port_Flush ?p)" by (simp add: port_Flush_def scriptedPort_def)
  have h3: "sanitize '' 138-0013-8000 '' \<noteq> []" by (simp add: sanitize_example)
  from MakeCall_sends_sanitized_number [OF h1 h2 h3]
  show ?thesis by (simp add: sanitize_example crlf_def scriptedPort_def)
qed

section \<open>The call monitor\<close>

lemma firstKeyword_chain:
  "firstKeyword u =
     (if contains u ''NO CARRIER'' then Some (CallStatusNoCarrier, True)
      else if contains u ''BUSY'' then Some (CallStatusBusy, True)
      else if contains u ''NO ANSWER'' then Some (CallStatusNoAnswer, True)
      else if contains u ''CONNECT'' then Some (CallStatusConnected, False)
      else if contains u ''ERROR'' then Some (CallStatusError, False)
      else None)"
  by (simp add: firstKeyword_def keywordTable_def)

lemma monitorLoop_spec:
  "list_all steady evs \<Longrightarrow>
   monitorLoop up 0 evs =
     (map fst (uptoFirst snd (List.map_filter (lineStatus up) (linesRead evs))),
      list_ex snd (List.map_filter (lineStatus up) (linesRead evs)))"
proof (induction evs)
  case Nil
  show ?case by (simp add: List.map_filter_simps)
next
  case (Cons ev evs)
  from Cons.prems have rest: "list_all steady evs" by simp
  note IH = Cons.IH [OF rest]
  show ?case
  proof (cases ev)
    case CtxDone
    with Cons.prems show ?thesis by simp
  next
    case ReadTimeout
    with Cons.prems show ?thesis by simp
  next
    case ReadError
    with IH show ?thesis by simp
  next
    case (LineRead line out)
    with Cons.prems have out: "out = Delivered" by (cases out) simp_all
    let ?u = "ToUpper up (TrimSpace line)"
    have ls: "lineStatus up line = firstKeyword ?u" by (simp add: lineStatus_def)
    consider (nc) "contains ?u ''NO CARRIER''"
      | (busy) "\<not> contains ?u ''NO CARRIER''" "contains ?u ''BUSY''"
      | (na) "\<not> contains ?u ''NO CARRIER''" "\<not> contains ?u ''BUSY''"
          "contains ?u ''NO ANSWER''"
      | (conn) "\<not> contains ?u ''NO CARRIER''" "\<not> contains ?u ''BUSY''"
          "\<not> contains ?u ''NO ANSWER''" "contains ?u ''CONNECT''"
      | (err) "\<not> contains ?u ''NO CARRIER''" "\<not> contains ?u ''BUSY''"
          "\<not> contains ?u ''NO ANSWER''" "\<not> contains ?u ''CONNECT''" "contains ?u ''ERROR''"
      | (none) "\<not> contains ?u ''NO CARRIER''" "\<not> contains ?u ''BUSY''"
          "\<not> contains ?u ''NO ANSWER''" "\<not> contains ?u ''CONNECT''"
          "\<not> contains ?u ''ERROR''"
      by blast
    then show ?thesis
    proof cases
      case nc
      then show ?thesis
        using out LineRead by (simp add: Let_def ls firstKeyword_chain List.map_filter_simps)
    next
      case busy
      then show ?thesis
        using out LineRead by (simp add: Let_def ls firstKeyword_chain List.map_filter_simps)
    next
      case na
      then show ?thesis
        using out LineRead by (simp add: Let_def ls firstKeyword_chain List.map_filter_simps)
    next
      case conn
      then show ?thesis
        using out LineRead IH
        by (simp add: Let_def ls firstKeyword_chain List.map_filter_simps)
    next
      case err
      then show ?thesis
        using out LineRead IH
        by (simp add: Let_def ls firstKeyword_chain List.map_filter_simps)
    next
      case none
      then show ?thesis
        using out LineRead IH
        by (simp add: Let_def ls firstKeyword_chain List.map_filter_simps)
    qed
  qed
qed

lemma sublist_skip_left:
  "k \<noteq> [] \<Longrightarrow> hd k \<notin> set a \<Longrightarrow> sublist k (a @ t) \<Longrightarrow> sublist k t"
proof (induction a)
  case Nil
  then show ?case by simp
next
  case (Cons x a)
  from Cons.prems(3) have "prefix k (x # a @ t) \<or> sublist k (a @ t)"
    by (simp add: sublist_Cons_right)
  moreover have "\<not> prefix k (x # a @ t)"
    using Cons.prems(1,2) by (cases k) auto
  ultimately show ?case using Cons by simp
qed

lemma sublist_skip_right:
  assumes "k \<noteq> []" and "last k \<notin> set b" and "sublist k (t @ b)"
  shows "sublist k t"
proof -
  have "sublist (rev k) (rev b @ rev t)"
    using assms(3) by (metis rev_append sublist_rev)
  moreover have "rev k \<noteq> []" "hd (rev k) \<notin> set (rev b)"
    using assms(1,2) by (simp_all add: hd_rev)
  ultimately have "sublist (rev k) (rev t)" by (rule sublist_skip_left [rotated 2])
  then show ?thesis by simp
qed

lemma spaceRunes_bytes_all:
  "list_all (list_all (\<lambda>c. c \<notin> set ''abcdefghijklmnopqrstuvwxyzNBCERYT'')) spaceRunes"
  by code_simp

lemma spaceRunes_bytes:
  "t \<in> set spaceRunes \<Longrightarrow> c \<in> set t \<Longrightarrow> c \<notin> set ''abcdefghijklmnopqrstuvwxyzNBCERYT''"
  using spaceRunes_bytes_all unfolding list_all_iff by blast

lemma asciiUpper_other: "c \<notin> set ''abcdefghijklmnopqrstuvwxyz'' \<Longrightarrow> asciiUpper c = c"
  by (simp add: asciiUpper_def)

lemma upper_space_bytes:
  assumes "set ts \<subseteq> set spaceRunes" and "c \<in> set (map asciiUpper (concat ts))"
  shows "c \<notin> set ''NBCERYT''"
proof -
  from assms(2) obtain d t where d: "c = asciiUpper d" "d \<in> set t" "t \<in> set ts" by auto
  with assms(1) have "d \<notin> set ''abcdefghijklmnopqrstuvwxyzNBCERYT''"
    using spaceRunes_bytes by blast
  then have "asciiUpper d = d" "d \<notin> set ''NBCERYT''"
    by (simp_all add: asciiUpper_other)
  with d(1) show ?thesis by simp
qed

lemma contains_upper_TrimSpace:
  assumes "k \<noteq> []" and "hd k \<in> set ''NBCERYT''" and "last k \<in> set ''NBCERYT''"
  shows "contains (map asciiUpper (TrimSpace line)) k = contains (map asciiUpper line) k"
proof -
  obtain as bs where d: "set as \<subseteq> set spaceRunes" "set bs \<subseteq> set spaceRunes"
    "line = concat as @ TrimSpace line @ concat bs"
    using TrimSpace_decomp by blast
  let ?a = "map asciiUpper (concat as)" and ?t = "map asciiUpper (TrimSpace line)"
  let ?b = "map asciiUpper (concat bs)"
  have eq: "map asciiUpper line = ?a @ ?t @ ?b"
    by (subst d(3)) simp
  have ha: "hd k \<notin> set ?a" using upper_space_bytes [OF d(1)] assms(2) by blast
  have hb: "last k \<notin> set ?b" using upper_space_bytes [OF d(2)] assms(3) by blast
  have "sublist k (?a @ ?t @ ?b) \<Longrightarrow> sublist k ?t"
  proof -
    assume "sublist k (?a @ ?t @ ?b)"
    then have "sublist k (?t @ ?b)" using assms(1) ha by (rule sublist_skip_left [rotated 2])
    then show "sublist k ?t" using assms(1) hb by (rule sublist_skip_right [rotated 2])
  qed
  moreover have "sublist k ?t \<Longrightarrow> sublist k (?a @ ?t @ ?b)"
  proof -
    assume "sublist k ?t"
    then obtain ps ss where "?t = ps @ k @ ss" by (auto simp: sublist_def)
    then have "?a @ ?t @ ?b = (?a @ ps) @ k @ (ss @ ?b)" by simp
    then show "sublist k (?a @ ?t @ ?b)" unfolding sublist_def by blast
  qed
  ultimately show ?thesis
    unfolding contains_iff_sublist eq by blast
qed

lemma TrimSpace_ascii: "list_all isASCII line \<Longrightarrow> list_all isASCII (TrimSpace line)"
proof -
  assume a: "list_all isASCII line"
  obtain as bs where "line = concat as @ TrimSpace line @ concat bs"
    using TrimSpace_decomp by blast
  then have "set (TrimSpace line) \<subseteq> set line" by (metis Un_upper1 Un_upper2 set_append subset_trans)
  with a show ?thesis by (auto simp: list_all_iff)
qed

lemma lineStatus_ascii:
  assumes "list_all isASCII line"
  shows "lineStatus up line = firstKeyword (map asciiUpper line)"
proof -
  have "ToUpper up (TrimSpace line) = map asciiUpper (TrimSpace line)"
    using TrimSpace_ascii [OF assms] by (simp add: ToUpper_def)
  then show ?thesis
    by (simp add: lineStatus_def firstKeyword_chain contains_upper_TrimSpace)
qed

text \<open>
  While no read times out and nothing is cancelled, the monitor does what is expected of
  it: the statuses it puts on its channel are those of the lines read, in order, up to
  and including the first line with a terminal keyword, and the channel is closed
  exactly when there is such a line. The status of a line is that of the first keyword
  of the table (\<open>NO CARRIER\<close>, \<open>BUSY\<close>, \<open>NO ANSWER\<close>, \<open>CONNECT\<close>, \<open>ERROR\<close>, the first
  three terminal) that occurs in the trimmed, upper-cased line; for a line of ASCII
  bytes the trimming makes no difference.
\<close>

lemma monitorCallStatus_steady:
  assumes "port e = Some p" and "list_all steady evs"
  shows "monitorCallStatus up e evs =
           (map fst (uptoFirst snd (List.map_filter (lineStatus up) (linesRead evs))),
            list_ex snd (List.map_filter (lineStatus up) (linesRead evs)))"
  using assms by (simp add: monitorCallStatus_def monitorLoop_spec)

text \<open>
  A timeout costs the next line: whatever \<open>ReadString\<close> returns next goes to the reader
  the timeout left behind, and the monitor goes on as if it had never been sent.
\<close>

lemma monitorLoop_timeout_loses_line:
  "monitorLoop up stale (ReadTimeout # LineRead line out # evs) = monitorLoop up stale evs"
  by simp

text \<open>
  C2. The module sends \<open>RING\<close>, stays silent until the read of the monitor has timed out
  once, and then sends \<open>NO CARRIER\<close>. The monitor puts nothing on its channel and does
  not close it: the line \<open>NO CARRIER\<close> is never upper-cased nor tested. Without the
  silence the same two lines give exactly the status no-carrier and a closed channel.
\<close>

theorem monitorCallStatus_misses_line_after_timeout:
  "monitorCallStatus up (driverOn (scriptedPort []))
     [LineRead (crlf ''RING'') Delivered, ReadTimeout, LineRead (crlf ''NO CARRIER'') Delivered]
     = ([], False)
   \<and> monitorCallStatus up (driverOn (scriptedPort []))
     [LineRead (crlf ''RING'') Delivered, LineRead (crlf ''NO CARRIER'') Delivered]
     = ([CallStatusNoCarrier], True)"
  by code_simp

section \<open>Normal network status\<close>

text \<open>
  C5. \<open>isNetworkStatusNormal\<close> holds exactly when the signal strength is above 5, the
  registration text is the one for the home network and the SIM text is the one for
  ready. A signal of 5, a signal of 6 on an unregistered module and a SIM that asks for
  its PIN are each not normal; a signal of 6 at home with a ready SIM is.
\<close>

theorem isNetworkStatusNormal_iff:
  "isNetworkStatusNormal st =
     (5 < SignalStrength st \<and> NetworkRegStatus st = regHome \<and> SIMStatus st = simReady)
   \<and> \<not> isNetworkStatusNormal (st\<lparr>SignalStrength := 5\<rparr>)
   \<and> \<not> isNetworkStatusNormal (st\<lparr>SignalStrength := 6, NetworkRegStatus := regUnregistered\<rparr>)
   \<and> \<not> isNetworkStatusNormal (st\<lparr>SIMStatus := simNeedsPIN\<rparr>)
   \<and> isNetworkStatusNormal
        (st\<lparr>SignalStrength := 6, NetworkRegStatus := regHome, SIMStatus := simReady\<rparr>)"
  by (simp add: isNetworkStatusNormal_def MinSignalStrength_def regHome_def
      regUnregistered_def simReady_def simNeedsPIN_def)

section \<open>Shutdown\<close>

text \<open>
  C10. After \<open>Close\<close> the controller is not connected, whether or not closing the port
  failed; the error of the port's \<open>Close\<close> is handed up. Without a port, \<open>Close\<close> returns no
  error and only clears the flag, so it changes nothing on a controller that was not
  connected.
\<close>

theorem Close_disconnects:
  "\<not> IsConnected (snd (Close e))
   \<and> (\<forall>p. port e = Some p \<and> fst (port_Close p)
          \<longrightarrow> fst (Close e) = Some (Transport CallClose) \<and> \<not> IsConnected (snd (Close e)))
   \<and> (port e = None \<longrightarrow> Close e = (None, e\<lparr>connected := False\<rparr>))
   \<and> (port e = None \<and> \<not> connected e \<longrightarrow> Close e = (None, e))"
  by (auto simp: Close_def IsConnected_def Let_def split: option.splits prod.splits bool.splits)

theorem Close_disconnects_witness:
  "\<not> IsConnected (snd (Close (driverOn stuckPort)))
   \<and> fst (Close (driverOn stuckPort)) = Some (Transport CallClose)
   \<and> connected (driverOn stuckPort)
   \<and> Close ((driverOn stuckPort)\<lparr>port := None\<rparr>)
        = (None, (driverOn stuckPort)\<lparr>port := None, connected := False\<rparr>)"
  using Close_disconnects [of "driverOn stuckPort"]
    Close_disconnects [of "(driverOn stuckPort)\<lparr>port := None\<rparr>"]
  by (simp add: driverOn_def stuckPort_def port_Close_def)

section \<open>Construction with the feature disabled\<close>

text \<open>
  C9. With \<open>Enabled\<close> false, \<open>NewEC600N\<close> returns neither a controller nor an error and
  leaves the operating system untouched: \<open>serial.OpenPort\<close> is not called. With
  \<open>Enabled\<close> true it is called once, with the configured path and baud rate. A caller
  therefore cannot tell an absent controller from the error alone.
\<close>

theorem NewEC600N_disabled:
  "(\<not> Enabled c \<longrightarrow> NewEC600N c w = ((None, None), w))
   \<and> (Enabled c \<longrightarrow>
        open_calls (snd (NewEC600N c w)) = open_calls w @ [(SerialPort c, BaudRate c)])"
  by (auto simp: NewEC600N_def initSerial_def Let_def split: option.splits prod.splits)

theorem NewEC600N_disabled_witness:
  "NewEC600N \<lparr>Enabled = False, SerialPort = ''/dev/ttyUSB0'', BaudRate = 115200\<rparr>
       \<lparr>device = Some (scriptedPort [Line (crlf ''OK'')]), open_calls = []\<rparr>
     = ((None, None), \<lparr>device = Some (scriptedPort [Line (crlf ''OK'')]), open_calls = []\<rparr>)
   \<and> open_calls (snd (NewEC600N \<lparr>Enabled = True, SerialPort = ''/dev/ttyUSB0'', BaudRate = 115200\<rparr>
       \<lparr>device = Some (scriptedPort [Line (crlf ''OK'')]), open_calls = []\<rparr>))
     = [(''/dev/ttyUSB0'', 115200)]"
  using NewEC600N_disabled
      [of "\<lparr>Enabled = False, SerialPort = ''/dev/ttyUSB0'', BaudRate = 115200\<rparr>"
          "\<lparr>device = Some (scriptedPort [Line (crlf ''OK'')]), open_calls = []\<rparr>"]
    NewEC600N_disabled
      [of "\<lparr>Enabled = True, SerialPort = ''/dev/ttyUSB0'', BaudRate = 115200\<rparr>"
          "\<lparr>device = Some (scriptedPort [Line (crlf ''OK'')]), open_calls = []\<rparr>"]
  by simp

section \<open>Signal strength\<close>

lemma findFirst_Some:
  "findFirst m s = Some r \<Longrightarrow> \<exists>pre t. s = pre @ t \<and> m t = Some r"
proof (induction s)
  case Nil
  then show ?case by simp
next
  case (Cons c cs)
  show ?case
  proof (cases "m (c # cs)")
    case (Some r')
    with Cons.prems have "m (c # cs) = Some r" by simp
    then show ?thesis by (metis append_Nil)
  next
    case None
    with Cons.prems have "findFirst m cs = Some r" by simp
    from Cons.IH [OF this] obtain pre t where "cs = pre @ t" "m t = Some r" by blast
    then have "c # cs = (c # pre) @ t" by simp
    with \<open>m t = Some r\<close> show ?thesis by blast
  qed
qed

lemma findFirst_here: "m s = Some r \<Longrightarrow> findFirst m s = Some r"
  by (cases s) auto

lemma findFirst_skip:
  "(\<And>a b. pre = a @ b \<Longrightarrow> b \<noteq> [] \<Longrightarrow> m (b @ s) = None)
     \<Longrightarrow> findFirst m (pre @ s) = findFirst m s"
proof (induction pre)
  case Nil
  then show ?case by simp
next
  case (Cons c pre)
  have "m ((c # pre) @ s) = None"
    using Cons.prems [of "[]" "c # pre"] by simp
  moreover have "findFirst m (pre @ s) = findFirst m s"
  proof (rule Cons.IH)
    fix a b assume "pre = a @ b" "b \<noteq> []"
    then show "m (b @ s) = None" using Cons.prems [of "c # a" b] by simp
  qed
  ultimately show ?case by simp
qed

lemma digit_not_space: "isDigit c \<Longrightarrow> \<not> isReSpace c"
  by (auto simp: isDigit_def isReSpace_def)

lemma digitsThen_ok:
  assumes "n \<noteq> []" and "list_all isDigit n" and "\<not> isDigit c"
  shows "digitsThen c (n @ c # r) = Some (n, r)"
proof -
  have "takeWhile isDigit (n @ c # r) = n" "dropWhile isDigit (n @ c # r) = c # r"
    using assms(2,3) by (simp_all add: list_all_iff takeWhile_append2 dropWhile_append2)
  with assms(1) show ?thesis by (simp add: digitsThen_def)
qed

lemma digitsThen_Some:
  assumes "digitsThen c s = Some (n, r)"
  shows "s = n @ c # r \<and> n \<noteq> [] \<and> list_all isDigit n"
proof -
  from assms have n: "n = takeWhile isDigit s" "n \<noteq> []" and d: "dropWhile isDigit s = c # r"
    by (auto simp: digitsThen_def Let_def split: if_splits list.splits)
  have "s = takeWhile isDigit s @ dropWhile isDigit s" by simp
  with n d have "s = n @ c # r" by simp
  moreover have "list_all isDigit n"
    unfolding n(1) list_all_iff by (blast dest: set_takeWhileD)
  ultimately show ?thesis using n(2) by simp
qed

lemma matchCSQ_ok:
  assumes "list_all isReSpace ws" and "n \<noteq> []" and "list_all isDigit n"
    and "m \<noteq> []" and "list_all isDigit m"
  shows "\<exists>m'. matchCSQ (''+CSQ:'' @ ws @ n @ '','' @ m @ post) = Some (n, m')"
proof -
  obtain d n' where n': "n = d # n'" using assms(2) by (cases n) auto
  with assms(3) have "\<not> isReSpace d" by (simp add: digit_not_space)
  then have "dropWhile isReSpace (ws @ n @ '','' @ m @ post) = n @ '','' @ m @ post"
    using assms(1) n' by (simp add: list_all_iff dropWhile_append2)
  moreover have "digitsThen (CHR '','') (n @ CHR '','' # m @ post) = Some (n, m @ post)"
    using assms(2,3) by (intro digitsThen_ok) (simp_all add: isDigit_def)
  moreover have "takeWhile isDigit (m @ post) \<noteq> []"
    using assms(4,5) by (cases m) auto
  ultimately show ?thesis by (simp add: matchCSQ_def Let_def)
qed

lemma matchCSQ_Some:
  assumes "matchCSQ s = Some (n, m)"
  shows "\<exists>ws post. s = ''+CSQ:'' @ ws @ n @ '','' @ m @ post \<and> list_all isReSpace ws
           \<and> n \<noteq> [] \<and> list_all isDigit n \<and> m \<noteq> [] \<and> list_all isDigit m"
proof -
  from assms have pre: "prefix ''+CSQ:'' s"
    by (auto simp: matchCSQ_def split: if_splits)
  then have s: "s = ''+CSQ:'' @ drop 5 s" by (auto simp: prefix_def)
  let ?t = "drop 5 s"
  let ?ws = "takeWhile isReSpace ?t"
  from assms pre obtain r where dt: "digitsThen (CHR '','') (dropWhile isReSpace ?t) = Some (n, r)"
    and m: "m = takeWhile isDigit r" "m \<noteq> []"
    by (auto simp: matchCSQ_def Let_def split: if_splits option.splits)
  from digitsThen_Some [OF dt] have d: "dropWhile isReSpace ?t = n @ CHR '','' # r"
    "n \<noteq> []" "list_all isDigit n" by auto
  have "?t = ?ws @ dropWhile isReSpace ?t" by simp
  also have "\<dots> = ?ws @ n @ '','' @ m @ dropWhile isDigit r"
    using d(1) m(1) by simp
  finally have "s = ''+CSQ:'' @ ?ws @ n @ '','' @ m @ dropWhile isDigit r"
    using s by (metis)
  moreover have "list_all isReSpace ?ws" "list_all isDigit m"
    unfolding m(1) list_all_iff by (blast dest: set_takeWhileD)+
  ultimately show ?thesis using d(2,3) m(2) by blast
qed

lemma match_csqFragment: "matchCSQ s = Some (n, m) \<Longrightarrow> csqFragment s n"
  unfolding csqFragment_def by (drule matchCSQ_Some) blast

lemma csqFragment_match: "csqFragment s n \<Longrightarrow> \<exists>m. matchCSQ s = Some (n, m)"
proof -
  assume "csqFragment s n"
  then obtain ws m post where s: "s = ''+CSQ:'' @ ws @ n @ '','' @ m @ post"
    and wf: "list_all isReSpace ws" "n \<noteq> []" "list_all isDigit n" "m \<noteq> []" "list_all isDigit m"
    unfolding csqFragment_def by blast
  from matchCSQ_ok [OF wf, of post]
  obtain m' where "matchCSQ (''+CSQ:'' @ ws @ n @ '','' @ m @ post) = Some (n, m')" by blast
  then have "matchCSQ s = Some (n, m')" by (simp only: s)
  then show ?thesis by (rule exI)
qed

lemma findCSQ_first:
  assumes "csqFragment s n"
    and "\<forall>a b n'. pre = a @ b \<and> b \<noteq> [] \<longrightarrow> \<not> csqFragment (b @ s) n'"
  shows "\<exists>m. findFirst matchCSQ (pre @ s) = Some (n, m)"
proof -
  obtain m where m: "matchCSQ s = Some (n, m)"
    using csqFragment_match [OF assms(1)] by blast
  have "findFirst matchCSQ (pre @ s) = findFirst matchCSQ s"
  proof (rule findFirst_skip)
    fix a b assume ab: "pre = a @ b" "b \<noteq> []"
    show "matchCSQ (b @ s) = None"
    proof (cases "matchCSQ (b @ s)")
      case None
      then show ?thesis .
    next
      case (Some r)
      obtain n' m' where "r = (n', m')" by (cases r)
      with Some have "matchCSQ (b @ s) = Some (n', m')" by simp
      then have "csqFragment (b @ s) n'" by (rule match_csqFragment)
      moreover from assms(2) ab have "\<not> csqFragment (b @ s) n'" by blast
      ultimately show ?thesis by simp
    qed
  qed
  also have "\<dots> = Some (n, m)" using m by (rule findFirst_here)
  finally show ?thesis by (rule exI)
qed

lemma findCSQ_None:
  assumes "\<nexists>pre s n. response = pre @ s \<and> csqFragment s n"
  shows "findFirst matchCSQ response = None"
proof (cases "findFirst matchCSQ response")
  case None
  then show ?thesis .
next
  case (Some r)
  obtain n m where "r = (n, m)" by (cases r)
  with Some have "findFirst matchCSQ response = Some (n, m)" by simp
  from findFirst_Some [OF this]
  obtain pre s where ps: "response = pre @ s" "matchCSQ s = Some (n, m)" by blast
  from ps(2) have "csqFragment s n" by (rule match_csqFragment)
  with ps(1) assms show ?thesis by blast
qed

lemma getSignalStrength_zero_on_error:
  "snd (fst (getSignalStrength e)) \<noteq> None \<Longrightarrow> fst (fst (getSignalStrength e)) = 0"
  by (auto simp: getSignalStrength_def split: prod.splits option.splits if_splits)

lemma getNetworkRegistrationStatus_zero_on_error:
  "snd (fst (getNetworkRegistrationStatus e)) \<noteq> None
     \<Longrightarrow> fst (fst (getNetworkRegistrationStatus e)) = []"
  by (auto simp: getNetworkRegistrationStatus_def split: prod.splits option.splits if_splits)

lemma getSIMStatus_zero_on_error:
  "snd (fst (getSIMStatus e)) \<noteq> None \<Longrightarrow> fst (fst (getSIMStatus e)) = []"
  by (auto simp: getSIMStatus_def split: prod.splits option.splits if_splits)

lemma getOperatorName_zero_on_error:
  "snd (fst (getOperatorName e)) \<noteq> None \<Longrightarrow> fst (fst (getOperatorName e)) = []"
  by (auto simp: getOperatorName_def split: prod.splits option.splits if_splits)

lemma getIMEI_zero_on_error:
  "snd (fst (getIMEI e)) \<noteq> None \<Longrightarrow> fst (fst (getIMEI e)) = []"
  by (auto simp: getIMEI_def split: prod.splits option.splits if_splits)

lemma CheckNetworkStatus_signal:
  "SignalStrength (fst (fst (CheckNetworkStatus now e))) = fst (fst (getSignalStrength e))"
  by (simp add: CheckNetworkStatus_def split: prod.splits)

lemma getSignalStrength_first_CSQ:
  assumes "sendATCommand e ''AT+CSQ'' = ((response, None), e')"
    and "response = pre @ s" and "csqFragment s n"
    and "\<forall>a b n'. pre = a @ b \<and> b \<noteq> [] \<longrightarrow> \<not> csqFragment (b @ s) n'"
  shows "getSignalStrength e =
           (if decimalValue n \<le> maxInt then ((decimalValue n, None), e')
            else ((0, Some (Wrapped (ScanError n))), e'))"
proof -
  obtain m where "findFirst matchCSQ response = Some (n, m)"
    using findCSQ_first [OF assms(3,4)] assms(2) by auto
  then show ?thesis using assms(1) by (simp add: getSignalStrength_def)
qed

text \<open>
  C7. Let the command \<open>AT+CSQ\<close> be answered with \<open>response\<close>. A well-formed fragment
  is \<open>+CSQ:\<close>, white space, digits \<open>n\<close>, a comma and digits \<open>m\<close>, where \<open>n\<close> is a number
  that fits an \<open>int\<close>, as every signal strength (0 to 31, or 99) does. If the response
  holds one, and none begins before it, \<open>getSignalStrength\<close> returns the number \<open>n\<close> with
  a nil error. If the response holds no fragment of that shape at all, the result is 0
  with the parse error. Whenever there is an error the value is 0, and
  \<open>CheckNetworkStatus\<close> stores the value returned.
\<close>

theorem getSignalStrength_parses_CSQ:
  assumes "sendATCommand e ''AT+CSQ'' = ((response, None), e')"
  shows "(\<forall>pre s n.
            response = pre @ s \<and> csqFragment s n
          \<and> (\<forall>a b n'. pre = a @ b \<and> b \<noteq> [] \<longrightarrow> \<not> csqFragment (b @ s) n')
          \<and> decimalValue n \<le> maxInt
          \<longrightarrow> getSignalStrength e = ((decimalValue n, None), e'))
       \<and> ((\<nexists>pre s n. response = pre @ s \<and> csqFragment s n)
          \<longrightarrow> getSignalStrength e = ((0, Some (ParseError response)), e'))
       \<and> (snd (fst (getSignalStrength e)) \<noteq> None \<longrightarrow> fst (fst (getSignalStrength e)) = 0)
       \<and> SignalStrength (fst (fst (CheckNetworkStatus now e))) = fst (fst (getSignalStrength e))"
proof -
  have a: "\<forall>pre s n.
            response = pre @ s \<and> csqFragment s n
          \<and> (\<forall>a b n'. pre = a @ b \<and> b \<noteq> [] \<longrightarrow> \<not> csqFragment (b @ s) n')
          \<and> decimalValue n \<le> maxInt
          \<longrightarrow> getSignalStrength e = ((decimalValue n, None), e')"
  proof (intro allI impI, elim conjE)
    fix pre s n
    assume h: "response = pre @ s" "csqFragment s n"
      "\<forall>a b n'. pre = a @ b \<and> b \<noteq> [] \<longrightarrow> \<not> csqFragment (b @ s) n'"
      and fits: "decimalValue n \<le> maxInt"
    from getSignalStrength_first_CSQ [OF assms h] fits
    show "getSignalStrength e = ((decimalValue n, None), e')" by simp
  qed
  have b: "(\<nexists>pre s n. response = pre @ s \<and> csqFragment s n)
          \<longrightarrow> getSignalStrength e = ((0, Some (ParseError response)), e')"
  proof
    assume "\<nexists>pre s n. response = pre @ s \<and> csqFragment s n"
    from findCSQ_None [OF this] assms
    show "getSignalStrength e = ((0, Some (ParseError response)), e')"
      by (simp add: getSignalStrength_def)
  qed
  have c: "snd (fst (getSignalStrength e)) \<noteq> None \<longrightarrow> fst (fst (getSignalStrength e)) = 0"
    using getSignalStrength_zero_on_error [of e] by blast
  show ?thesis
    by (rule conjI [OF a conjI [OF b conjI [OF c CheckNetworkStatus_signal]]])
qed

lemma csq_example:
  "fst (sendATCommand
     (driverOn (scriptedPort [Line (crlf ''+CSQ: 15,99''), Line (crlf []), Line (crlf ''OK'')]))
     ''AT+CSQ'') = (crlf ''+CSQ: 15,99'' @ crlf [] @ crlf ''OK'', None)"
  by code_simp

lemma csq_error_example:
  "fst (getSignalStrength (driverOn (scriptedPort [Line (crlf ''ERROR'')])))
     = (0, Some (ParseError (crlf ''ERROR'')))"
  by code_simp

lemma csq_example_fragment:
  "csqFragment (crlf ''+CSQ: 15,99'' @ crlf [] @ crlf ''OK'') ''15''"
  unfolding csqFragment_def
  by (intro exI [of _ "'' ''"] exI [of _ "''99''"] exI [of _ "crlf [] @ crlf [] @ crlf ''OK''"])
     (simp add: crlf_def isReSpace_def isDigit_def)

theorem getSignalStrength_parses_CSQ_witness:
  "fst (getSignalStrength
          (driverOn (scriptedPort [Line (crlf ''+CSQ: 15,99''), Line (crlf []), Line (crlf ''OK'')])))
     = (15, None)
   \<and> fst (getSignalStrength (driverOn (scriptedPort [Line (crlf ''ERROR'')])))
     = (0, Some (ParseError (crlf ''ERROR'')))"
proof -
  let ?E = "driverOn (scriptedPort [Line (crlf ''+CSQ: 15,99''), Line (crlf []), Line (crlf ''OK'')])"
  let ?resp = "crlf ''+CSQ: 15,99'' @ crlf [] @ crlf ''OK''"
  have s: "sendATCommand ?E ''AT+CSQ'' = ((?resp, None), snd (sendATCommand ?E ''AT+CSQ''))"
    using csq_example by (simp add: prod_eq_iff)
  have fits: "decimalValue ''15'' \<le> maxInt"
    by (simp add: decimalValue_def maxInt_def)
  have first: "\<forall>a b n'. [] = a @ b \<and> b \<noteq> [] \<longrightarrow> \<not> csqFragment (b @ ?resp) n'"
    by simp
  have "getSignalStrength ?E = ((decimalValue ''15'', None), snd (sendATCommand ?E ''AT+CSQ''))"
    by (rule getSignalStrength_parses_CSQ
            [OF s, of 0, THEN conjunct1, rule_format, of "[]" ?resp "''15''"])
       (intro conjI, simp, rule csq_example_fragment, rule first, rule fits)
  then have "fst (getSignalStrength ?E) = (15, None)"
    by (simp add: decimalValue_def)
  with csq_error_example show ?thesis by simp
qed

text \<open>A number beyond the range of \<open>int\<close> is an error of \<open>Sscanf\<close>, with the value 0.\<close>

lemma getSignalStrength_overflow_example:
  "fst (getSignalStrength
          (driverOn (scriptedPort [Line (crlf ''+CSQ: 9223372036854775808,0''), Line (crlf ''OK'')])))
     = (0, Some (Wrapped (ScanError ''9223372036854775808'')))"
  by code_simp


section \<open>The status snapshot\<close>

text \<open>
  C8. \<open>CheckNetworkStatus\<close> returns a nil error in every state. It runs the five queries
  one after the other, each on the controller the one before left behind, whether or
  not that one failed, and the snapshot holds the value each query returned. A query
  that returns an error returns the zero value of its type with it, so the field of a
  failed query is zero (0 or the empty string) and the others are what their queries
  found.
\<close>

theorem CheckNetworkStatus_never_fails:
  "snd (fst (CheckNetworkStatus now e)) = None
   \<and> (\<exists>r1 e1 r2 e2 r3 e3 r4 e4 r5 e5.
         getSignalStrength e = (r1, e1)
       \<and> getNetworkRegistrationStatus e1 = (r2, e2)
       \<and> getSIMStatus e2 = (r3, e3)
       \<and> getOperatorName e3 = (r4, e4)
       \<and> getIMEI e4 = (r5, e5)
       \<and> CheckNetworkStatus now e =
           ((\<lparr>SignalStrength = fst r1, NetworkRegStatus = fst r2, SIMStatus = fst r3,
              OperatorName = fst r4, IMEI = fst r5, Timestamp = now\<rparr>, None), e5)
       \<and> (snd r1 \<noteq> None \<longrightarrow> fst r1 = 0)
       \<and> (snd r2 \<noteq> None \<longrightarrow> fst r2 = [])
       \<and> (snd r3 \<noteq> None \<longrightarrow> fst r3 = [])
       \<and> (snd r4 \<noteq> None \<longrightarrow> fst r4 = [])
       \<and> (snd r5 \<noteq> None \<longrightarrow> fst r5 = []))"
proof -
  obtain r1 e1 where g1: "getSignalStrength e = (r1, e1)" by (cases "getSignalStrength e")
  obtain r2 e2 where g2: "getNetworkRegistrationStatus e1 = (r2, e2)"
    by (cases "getNetworkRegistrationStatus e1")
  obtain r3 e3 where g3: "getSIMStatus e2 = (r3, e3)" by (cases "getSIMStatus e2")
  obtain r4 e4 where g4: "getOperatorName e3 = (r4, e4)" by (cases "getOperatorName e3")
  obtain r5 e5 where g5: "getIMEI e4 = (r5, e5)" by (cases "getIMEI e4")
  have c: "CheckNetworkStatus now e =
           ((\<lparr>SignalStrength = fst r1, NetworkRegStatus = fst r2, SIMStatus = fst r3,
              OperatorName = fst r4, IMEI = fst r5, Timestamp = now\<rparr>, None), e5)"
    using g1 g2 g3 g4 g5 by (simp add: CheckNetworkStatus_def split: prod.splits)
  have z1: "snd r1 \<noteq> None \<longrightarrow> fst r1 = 0"
    using getSignalStrength_zero_on_error [of e] g1 by simp
  have z2: "snd r2 \<noteq> None \<longrightarrow> fst r2 = []"
    using getNetworkRegistrationStatus_zero_on_error [of e1] g2 by simp
  have z3: "snd r3 \<noteq> None \<longrightarrow> fst r3 = []"
    using getSIMStatus_zero_on_error [of e2] g3 by simp
  have z4: "snd r4 \<noteq> None \<longrightarrow> fst r4 = []"
    using getOperatorName_zero_on_error [of e3] g4 by simp
  have z5: "snd r5 \<noteq> None \<longrightarrow> fst r5 = []"
    using getIMEI_zero_on_error [of e4] g5 by simp
  have "snd (fst (CheckNetworkStatus now e)) = None" using c by simp
  with g1 g2 g3 g4 g5 c z1 z2 z3 z4 z5 show ?thesis by blast
qed

lemma statusScript_value:
  "fst (CheckNetworkStatus 7 (driverOn (scriptedPort statusScript))) =
     (\<lparr>SignalStrength = 0, NetworkRegStatus = regHome, SIMStatus = simReady,
       OperatorName = ''CHINA MOBILE'', IMEI = ''861234567890123'', Timestamp = 7\<rparr>, None)"
  by code_simp

lemma statusScript_signal_fails:
  "fst (getSignalStrength (driverOn (scriptedPort statusScript)))
     = (0, Some (ParseError (crlf ''ERROR'')))"
  by code_simp

theorem CheckNetworkStatus_never_fails_witness:
  "fst (CheckNetworkStatus 7 (driverOn (scriptedPort statusScript))) =
     (\<lparr>SignalStrength = 0, NetworkRegStatus = regHome, SIMStatus = simReady,
       OperatorName = ''CHINA MOBILE'', IMEI = ''861234567890123'', Timestamp = 7\<rparr>, None)
   \<and> fst (getSignalStrength (driverOn (scriptedPort statusScript)))
     = (0, Some (ParseError (crlf ''ERROR'')))"
  using CheckNetworkStatus_never_fails [of 7 "driverOn (scriptedPort statusScript)"]
    statusScript_value statusScript_signal_fails
  by simp

section \<open>The IMEI\<close>

text \<open>
  With the pattern \<open>^\d{15}$\<close>, \<open>getIMEI\<close> returns the first line of the response that,
  trimmed, is exactly fifteen digits, and the parse error when there is none.
\<close>

lemma scanIMEI_find:
  "scanIMEI ls = List.find (\<lambda>x. length x = 15 \<and> list_all isDigit x) (map TrimSpace ls)"
  by (induction ls) (auto simp: Let_def IMEILength_def matchIMEI_def)

lemma getIMEI_first_fifteen_digits:
  assumes "sendATCommand e ''AT+CGSN'' = ((response, None), e')"
  shows "getIMEI e =
           (case List.find (\<lambda>x. length x = 15 \<and> list_all isDigit x)
                   (map TrimSpace (Split response (CHR 0x0A))) of
              Some x \<Rightarrow> ((x, None), e')
            | None \<Rightarrow> (([], Some (ParseError response)), e'))"
  using assms by (simp add: getIMEI_def scanIMEI_find)

text \<open>
  C6. The copy of the driver that tests a line with \<open>IndexAny\<close> only looks at the first
  byte: a line of fifteen bytes that starts with a digit is returned as the IMEI although
  it holds a letter. The copy with the pattern rejects the same response.
\<close>

theorem getIMEI_indexAny_accepts_non_digits:
  "fst (getIMEI_indexAny
          (driverOn (scriptedPort [Line (crlf ''12345678901234X''), Line (crlf ''OK'')])))
     = (''12345678901234X'', None)
   \<and> fst (getIMEI
          (driverOn (scriptedPort [Line (crlf ''12345678901234X''), Line (crlf ''OK'')])))
     = ([], Some (ParseError (crlf ''12345678901234X'' @ crlf ''OK'')))"
  by code_simp

end
